theory Spec2Isabelle
  imports Complex_Main "HOL-Library.Word"
begin

section \<open>JavaScript values held by the engine\<close>

text \<open>
  The register file of \<^verbatim>\<open>cpu.js\<close> is a plain JavaScript array, so a register can hold
  any JavaScript number, and \<^verbatim>\<open>undefined\<close> where no element was ever stored.
  A finite number is represented by the rational it denotes; the two infinities and NaN are
  separate values. The arithmetic below returns the exact rational result: IEEE rounding and
  the sign of zero are outside the model, which therefore agrees with JavaScript on integers
  of magnitude below \<open>2^53\<close> and on quotients that a double represents exactly.
\<close>

datatype jsval = Num rat | PInf | NInf | NaN | Undefined

definition trunc :: "rat \<Rightarrow> int" where
  "trunc q = (if q < 0 then \<lceil>q\<rceil> else \<lfloor>q\<rfloor>)"

text \<open>ToInt32 and ToUint32: truncate, then wrap to 32 bits; non-finite values give 0.\<close>

fun to_int32 :: "jsval \<Rightarrow> int" where
  "to_int32 (Num q) = signed_take_bit 31 (trunc q)"
| "to_int32 _ = 0"

fun to_uint32 :: "jsval \<Rightarrow> int" where
  "to_uint32 (Num q) = take_bit 32 (trunc q)"
| "to_uint32 _ = 0"

definition js_and :: "jsval \<Rightarrow> jsval \<Rightarrow> jsval" where
  "js_and a b = Num (of_int (and (to_int32 a) (to_int32 b)))"

definition js_or :: "jsval \<Rightarrow> jsval \<Rightarrow> jsval" where
  "js_or a b = Num (of_int (or (to_int32 a) (to_int32 b)))"

definition js_xor :: "jsval \<Rightarrow> jsval \<Rightarrow> jsval" where
  "js_xor a b = Num (of_int (xor (to_int32 a) (to_int32 b)))"

definition js_not :: "jsval \<Rightarrow> jsval" where
  "js_not a = Num (of_int (not (to_int32 a)))"

text \<open>The shifts \<^verbatim>\<open><<\<close>, \<^verbatim>\<open>>>\<close> and \<^verbatim>\<open>>>>\<close>; the count is taken modulo 32.\<close>

definition js_shl :: "jsval \<Rightarrow> jsval \<Rightarrow> jsval" where
  "js_shl a b =
     Num (of_int (signed_take_bit 31 (push_bit (nat (to_uint32 b mod 32)) (to_int32 a))))"

definition js_sar :: "jsval \<Rightarrow> jsval \<Rightarrow> jsval" where
  "js_sar a b = Num (of_int (drop_bit (nat (to_uint32 b mod 32)) (to_int32 a)))"

definition js_shr :: "jsval \<Rightarrow> jsval \<Rightarrow> jsval" where
  "js_shr a b = Num (of_int (drop_bit (nat (to_uint32 b mod 32)) (to_uint32 a)))"

fun js_neg :: "jsval \<Rightarrow> jsval" where
  "js_neg (Num a) = Num (- a)"
| "js_neg PInf = NInf"
| "js_neg NInf = PInf"
| "js_neg NaN = NaN"
| "js_neg Undefined = NaN"

fun js_add :: "jsval \<Rightarrow> jsval \<Rightarrow> jsval" where
  "js_add (Num a) (Num b) = Num (a + b)"
| "js_add (Num a) PInf = PInf"
| "js_add (Num a) NInf = NInf"
| "js_add PInf (Num b) = PInf"
| "js_add PInf PInf = PInf"
| "js_add NInf (Num b) = NInf"
| "js_add NInf NInf = NInf"
| "js_add _ _ = NaN"

definition js_sub :: "jsval \<Rightarrow> jsval \<Rightarrow> jsval" where
  "js_sub a b = js_add a (js_neg b)"

fun js_mul :: "jsval \<Rightarrow> jsval \<Rightarrow> jsval" where
  "js_mul (Num a) (Num b) = Num (a * b)"
| "js_mul (Num a) PInf = (if a = 0 then NaN else if 0 < a then PInf else NInf)"
| "js_mul (Num a) NInf = (if a = 0 then NaN else if 0 < a then NInf else PInf)"
| "js_mul PInf (Num b) = (if b = 0 then NaN else if 0 < b then PInf else NInf)"
| "js_mul NInf (Num b) = (if b = 0 then NaN else if 0 < b then NInf else PInf)"
| "js_mul PInf PInf = PInf"
| "js_mul PInf NInf = NInf"
| "js_mul NInf PInf = NInf"
| "js_mul NInf NInf = PInf"
| "js_mul _ _ = NaN"

text \<open>
  \<^verbatim>\<open>/\<close> never fails in JavaScript: a finite nonzero number divided by zero is an
  infinity, and \<^verbatim>\<open>0 / 0\<close> is NaN.
\<close>

fun js_div :: "jsval \<Rightarrow> jsval \<Rightarrow> jsval" where
  "js_div (Num a) (Num b) =
     (if b = 0 then (if a = 0 then NaN else if 0 < a then PInf else NInf) else Num (a / b))"
| "js_div (Num a) PInf = Num 0"
| "js_div (Num a) NInf = Num 0"
| "js_div PInf (Num b) = (if 0 \<le> b then PInf else NInf)"
| "js_div NInf (Num b) = (if 0 \<le> b then NInf else PInf)"
| "js_div _ _ = NaN"

text \<open>\<^verbatim>\<open>%\<close> is the remainder of the truncating division: it has the sign of the dividend.\<close>

fun js_mod :: "jsval \<Rightarrow> jsval \<Rightarrow> jsval" where
  "js_mod (Num a) (Num b) = (if b = 0 then NaN else Num (a - b * of_int (trunc (a / b))))"
| "js_mod (Num a) PInf = Num a"
| "js_mod (Num a) NInf = Num a"
| "js_mod _ _ = NaN"

text \<open>Strict equality and the relational operators; every comparison with NaN is false.\<close>

fun js_seq :: "jsval \<Rightarrow> jsval \<Rightarrow> bool" where
  "js_seq (Num a) (Num b) = (a = b)"
| "js_seq PInf PInf = True"
| "js_seq NInf NInf = True"
| "js_seq Undefined Undefined = True"
| "js_seq _ _ = False"

fun js_lt :: "jsval \<Rightarrow> jsval \<Rightarrow> bool" where
  "js_lt (Num a) (Num b) = (a < b)"
| "js_lt (Num a) PInf = True"
| "js_lt NInf (Num b) = True"
| "js_lt NInf PInf = True"
| "js_lt _ _ = False"

definition js_gt :: "jsval \<Rightarrow> jsval \<Rightarrow> bool" where
  "js_gt a b = js_lt b a"

fun js_truthy :: "jsval \<Rightarrow> bool" where
  "js_truthy (Num a) = (a \<noteq> 0)"
| "js_truthy PInf = True"
| "js_truthy NInf = True"
| "js_truthy NaN = False"
| "js_truthy Undefined = False"

section \<open>The memory collaborator\<close>

text \<open>
  Modelled from the spec: the RAM object passed to the constructor (\<^verbatim>\<open>this.ram\<close>) is
  not part of \<^verbatim>\<open>cpu.js\<close>. The specification describes it as a byte-addressable array of
  size 256 (addresses 0x00 to 0xFF) whose cells are taken modulo 256 after any mutation.
\<close>

type_synonym ram = "8 word \<Rightarrow> 8 word"

text \<open>The number a cell shows to the engine, and the cell a number selects.\<close>

definition byte_val :: "8 word \<Rightarrow> jsval" where
  "byte_val w = Num (of_int (uint w))"

definition addr :: "jsval \<Rightarrow> 8 word option" where
  "addr v = (case v of
       Num q \<Rightarrow> if of_int \<lfloor>q\<rfloor> = q \<and> 0 \<le> q \<and> q \<le> 255 then Some (word_of_int \<lfloor>q\<rfloor>) else None
     | _ \<Rightarrow> None)"

text \<open>
  Modelled from the spec: a stored value is taken modulo 256 (for a value that is not an
  integer, after the truncation of ToInt32).
\<close>

definition to_uint8 :: "jsval \<Rightarrow> 8 word" where
  "to_uint8 v = word_of_int (to_int32 v)"

text \<open>
  Modelled from the spec: \<^verbatim>\<open>read(address: 0..255) -> byte\<close>. An address outside 0..255 is
  outside that contract; here such a read yields \<^verbatim>\<open>undefined\<close>.
\<close>

definition ram_read :: "ram \<Rightarrow> jsval \<Rightarrow> jsval" where
  "ram_read m a = (case addr a of Some w \<Rightarrow> byte_val (m w) | None \<Rightarrow> Undefined)"

text \<open>
  Modelled from the spec: \<^verbatim>\<open>write(address: 0..255, value: byte)\<close>. A write to an address
  outside 0..255 is outside that contract; here it stores nothing.
\<close>

definition ram_write :: "ram \<Rightarrow> jsval \<Rightarrow> jsval \<Rightarrow> ram" where
  "ram_write m a v = (case addr a of Some w \<Rightarrow> m(w := to_uint8 v) | None \<Rightarrow> m)"

text \<open>A value is a byte when it is the number of some memory address, 0 to 255.\<close>

definition is_byte :: "jsval \<Rightarrow> bool" where
  "is_byte v = (addr v \<noteq> None)"

section \<open>Engine state\<close>

text \<open>
  \<^verbatim>\<open>this.reg\<close> is one JavaScript array object: its elements are reached by a number
  (\<open>Idx\<close>), and the special-purpose registers are the properties \<^verbatim>\<open>PC\<close>, \<^verbatim>\<open>IR\<close>
  and \<^verbatim>\<open>FL\<close> of the same object. A key that was never stored reads as \<^verbatim>\<open>undefined\<close>.
  \<open>NullKey\<close> is the key \<^verbatim>\<open>null\<close> that \<^verbatim>\<open>alu('ADD', 'PC', null, n)\<close> passes.
\<close>

datatype key = Idx jsval | PC | IR | FL | NullKey

datatype out_event =
    ConsoleLog string
  | ConsoleLogInvalid jsval
  | ConsoleLogValue jsval
  | StdoutChar jsval

datatype js_error = TypeError

record cpu =
  ram :: ram
  reg :: "key \<Rightarrow> jsval"
  interruptsEnabled :: bool
  stopped :: bool
  console :: "out_event list"

definition IM :: jsval where "IM = Num 5"
definition IS :: jsval where "IS = Num 6"
definition SP :: jsval where "SP = Num 7"

definition intMask :: "jsval list" where
  "intMask =
     [js_shl (Num 1) (Num 0), js_shl (Num 1) (Num 1), js_shl (Num 1) (Num 2),
      js_shl (Num 1) (Num 3), js_shl (Num 1) (Num 4), js_shl (Num 1) (Num 5),
      js_shl (Num 1) (Num 6), js_shl (Num 1) (Num 7)]"

definition intMask_at :: "nat \<Rightarrow> jsval" where
  "intMask_at n = (if n < length intMask then intMask ! n else Undefined)"

definition FLAG_EQ :: jsval where "FLAG_EQ = Num 0"
definition FLAG_GT :: jsval where "FLAG_GT = Num 1"
definition FLAG_LT :: jsval where "FLAG_LT = Num 2"

text \<open>The constructor: eight zeroed registers, SP at 0xF4, interrupts enabled.\<close>

definition new_cpu :: "ram \<Rightarrow> cpu" where
  "new_cpu m =
     \<lparr>ram = m,
      reg = (\<lambda>k. Undefined)
        (Idx (Num 0) := Num 0, Idx (Num 1) := Num 0, Idx (Num 2) := Num 0,
         Idx (Num 3) := Num 0, Idx (Num 4) := Num 0, Idx (Num 5) := Num 0,
         Idx (Num 6) := Num 0, Idx (Num 7) := Num 0,
         Idx IM := Num 0, Idx IS := Num 0, Idx SP := Num 0xF4,
         PC := Num 0, IR := Num 0, FL := Num 0),
      interruptsEnabled = True,
      stopped = False,
      console = []\<rparr>"

definition setFlag :: "jsval \<Rightarrow> bool \<Rightarrow> cpu \<Rightarrow> cpu" where
  "setFlag f v s =
     (if v then s\<lparr>reg := (reg s)(FL := js_or (reg s FL) (js_shl (Num 1) f))\<rparr>
      else s\<lparr>reg := (reg s)(FL := js_and (reg s FL) (js_not (js_shl (Num 1) f)))\<rparr>)"

definition getFlag :: "jsval \<Rightarrow> cpu \<Rightarrow> jsval" where
  "getFlag f s = js_sar (js_and (reg s FL) (js_shl (Num 1) f)) f"

definition poke :: "jsval \<Rightarrow> jsval \<Rightarrow> cpu \<Rightarrow> cpu" where
  "poke address v s = s\<lparr>ram := ram_write (ram s) address v\<rparr>"

definition raiseInterrupt :: "nat \<Rightarrow> cpu \<Rightarrow> cpu" where
  "raiseInterrupt n s = s\<lparr>reg := (reg s)(Idx IS := js_or (reg s (Idx IS)) (intMask_at n))\<rparr>"

text \<open>
  \<^verbatim>\<open>stop\<close> clears the two intervals and stops the peripherals; it does not end the
  function that called it.
\<close>

definition stop :: "cpu \<Rightarrow> cpu" where
  "stop s = s\<lparr>stopped := True\<rparr>"

definition console_log :: "out_event \<Rightarrow> cpu \<Rightarrow> cpu" where
  "console_log x s = s\<lparr>console := console s @ [x]\<rparr>"

section \<open>The ALU\<close>

datatype aluop =
    ALU_AND | ALU_OR | ALU_NOT | ALU_XOR | ALU_MUL | ALU_ADD | ALU_SUB
  | ALU_DIV | ALU_MOD | ALU_INC | ALU_DEC | ALU_CMP | ALU_SHL | ALU_SHR

definition set_reg :: "key \<Rightarrow> jsval \<Rightarrow> cpu \<Rightarrow> cpu" where
  "set_reg k v s = s\<lparr>reg := (reg s)(k := v)\<rparr>"

definition key_or_undefined :: "key option \<Rightarrow> key" where
  "key_or_undefined k = (case k of Some x \<Rightarrow> x | None \<Rightarrow> Idx Undefined)"

definition alu :: "aluop \<Rightarrow> key \<Rightarrow> key option \<Rightarrow> jsval option \<Rightarrow> cpu \<Rightarrow> cpu" where
  "alu op regA regB immediate s =
     (let valA = reg s regA;
          valB = (case immediate of
                    None \<Rightarrow> (case regB of Some rb \<Rightarrow> reg s rb | None \<Rightarrow> Undefined)
                  | Some i \<Rightarrow> i)
      in case op of
           ALU_AND \<Rightarrow> set_reg regA (js_and valA valB) s
         | ALU_OR \<Rightarrow> set_reg regA (js_or valA valB) s
         | ALU_NOT \<Rightarrow> set_reg regA (js_not valA) s
         | ALU_XOR \<Rightarrow> set_reg regA (js_xor valA valB) s
         | ALU_MUL \<Rightarrow> set_reg regA (js_and (js_mul valA valB) (Num 255)) s
         | ALU_ADD \<Rightarrow> set_reg regA (js_and (js_add valA valB) (Num 255)) s
         | ALU_SUB \<Rightarrow> set_reg regA (js_and (js_sub valA valB) (Num 255)) s
         | ALU_DIV \<Rightarrow>
             (let s1 = (if js_seq valB (Num 0)
                        then stop (console_log (ConsoleLog ''ERROR: DIV 0'') s) else s)
              in set_reg regA (js_div valA valB) s1)
         | ALU_MOD \<Rightarrow>
             (let s1 = (if js_seq valB (Num 0)
                        then stop (console_log (ConsoleLog ''ERROR: MOD 0'') s) else s)
              in set_reg regA (js_mod valA valB) s1)
         | ALU_INC \<Rightarrow> set_reg regA (js_and (js_add valA (Num 1)) (Num 255)) s
         | ALU_DEC \<Rightarrow> set_reg regA (js_and (js_sub valA (Num 1)) (Num 255)) s
         | ALU_CMP \<Rightarrow>
             setFlag FLAG_LT (js_lt valA valB)
               (setFlag FLAG_GT (js_gt valA valB)
                 (setFlag FLAG_EQ (js_seq valA valB) s))
         | ALU_SHL \<Rightarrow>
             set_reg regA
               (js_and (js_shl (reg s regA) (reg s (key_or_undefined regB))) (Num 255)) s
         | ALU_SHR \<Rightarrow>
             set_reg regA
               (js_and (js_shr (reg s regA) (reg s (key_or_undefined regB))) (Num 255)) s)"

section \<open>Stack helpers and instruction handlers\<close>

definition push :: "jsval \<Rightarrow> cpu \<Rightarrow> cpu" where
  "push val s =
     (let s1 = alu ALU_DEC (Idx SP) None None s
      in s1\<lparr>ram := ram_write (ram s1) (reg s1 (Idx SP)) val\<rparr>)"

definition pop :: "cpu \<Rightarrow> jsval \<times> cpu" where
  "pop s =
     (let val = ram_read (ram s) (reg s (Idx SP));
          s1 = alu ALU_INC (Idx SP) None None s
      in (val, s1))"

text \<open>
  Every handler is called with both operand bytes, \<^verbatim>\<open>handler(operandA, operandB)\<close>, and
  ignores the ones it does not declare.
\<close>

definition ADD :: "jsval \<Rightarrow> jsval \<Rightarrow> cpu \<Rightarrow> cpu" where
  "ADD regA regB s = alu ALU_ADD (Idx regA) (Some (Idx regB)) None s"

definition AND :: "jsval \<Rightarrow> jsval \<Rightarrow> cpu \<Rightarrow> cpu" where
  "AND regA regB s = alu ALU_AND (Idx regA) (Some (Idx regB)) None s"

definition CMP :: "jsval \<Rightarrow> jsval \<Rightarrow> cpu \<Rightarrow> cpu" where
  "CMP regA regB s = alu ALU_CMP (Idx regA) (Some (Idx regB)) None s"

definition DIV :: "jsval \<Rightarrow> jsval \<Rightarrow> cpu \<Rightarrow> cpu" where
  "DIV regA regB s = alu ALU_DIV (Idx regA) (Some (Idx regB)) None s"

definition CALL :: "jsval \<Rightarrow> jsval \<Rightarrow> cpu \<Rightarrow> cpu" where
  "CALL r unused s =
     (let s1 = push (js_add (reg s PC) (Num 2)) s;
          address = reg s1 (Idx r)
      in s1\<lparr>reg := (reg s1)(PC := address)\<rparr>)"

definition DEC :: "jsval \<Rightarrow> jsval \<Rightarrow> cpu \<Rightarrow> cpu" where
  "DEC r unused s = alu ALU_DEC (Idx r) None None s"

definition HLT :: "jsval \<Rightarrow> jsval \<Rightarrow> cpu \<Rightarrow> cpu" where
  "HLT unusedA unusedB s = stop s"

definition INC :: "jsval \<Rightarrow> jsval \<Rightarrow> cpu \<Rightarrow> cpu" where
  "INC r unused s = alu ALU_INC (Idx r) None None s"

definition INT_handler :: "jsval \<Rightarrow> jsval \<Rightarrow> cpu \<Rightarrow> cpu" where
  "INT_handler r unused s =
     (let intNum = reg s (Idx r)
      in s\<lparr>reg := (reg s)(Idx IM := js_or (reg s (Idx IM)) intNum)\<rparr>)"

definition IRET :: "jsval \<Rightarrow> jsval \<Rightarrow> cpu \<Rightarrow> cpu" where
  "IRET unusedA unusedB s =
     (let s1 = foldl (\<lambda>t r. case pop t of (v, t') \<Rightarrow>
                        t'\<lparr>reg := (reg t')(Idx (Num (of_nat r)) := v)\<rparr>) s (rev [0..<7]);
          (fl, s2) = pop s1;
          s3 = s2\<lparr>reg := (reg s2)(FL := fl)\<rparr>;
          (pc, s4) = pop s3;
          s5 = s4\<lparr>reg := (reg s4)(PC := pc)\<rparr>
      in s5\<lparr>interruptsEnabled := True\<rparr>)"

definition JEQ :: "jsval \<Rightarrow> jsval \<Rightarrow> cpu \<Rightarrow> cpu" where
  "JEQ r unused s =
     (if js_truthy (getFlag FLAG_EQ s)
      then s\<lparr>reg := (reg s)(PC := reg s (Idx r))\<rparr>
      else alu ALU_ADD PC (Some NullKey) (Some (Num 2)) s)"

definition JGE :: "jsval \<Rightarrow> jsval \<Rightarrow> cpu \<Rightarrow> cpu" where
  "JGE r unused s =
     (if js_truthy (getFlag FLAG_EQ s) \<or> js_truthy (getFlag FLAG_GT s)
      then s\<lparr>reg := (reg s)(PC := reg s (Idx r))\<rparr>
      else alu ALU_ADD PC (Some NullKey) (Some (Num 2)) s)"

definition JGT :: "jsval \<Rightarrow> jsval \<Rightarrow> cpu \<Rightarrow> cpu" where
  "JGT r unused s =
     (if js_truthy (getFlag FLAG_GT s)
      then s\<lparr>reg := (reg s)(PC := reg s (Idx r))\<rparr>
      else alu ALU_ADD PC (Some NullKey) (Some (Num 2)) s)"

definition JLT :: "jsval \<Rightarrow> jsval \<Rightarrow> cpu \<Rightarrow> cpu" where
  "JLT r unused s =
     (if js_truthy (getFlag FLAG_LT s)
      then s\<lparr>reg := (reg s)(PC := reg s (Idx r))\<rparr>
      else alu ALU_ADD PC (Some NullKey) (Some (Num 2)) s)"

definition JLE :: "jsval \<Rightarrow> jsval \<Rightarrow> cpu \<Rightarrow> cpu" where
  "JLE r unused s =
     (if js_truthy (getFlag FLAG_EQ s) \<or> js_truthy (getFlag FLAG_LT s)
      then s\<lparr>reg := (reg s)(PC := reg s (Idx r))\<rparr>
      else alu ALU_ADD PC (Some NullKey) (Some (Num 2)) s)"

definition JMP :: "jsval \<Rightarrow> jsval \<Rightarrow> cpu \<Rightarrow> cpu" where
  "JMP r unused s = s\<lparr>reg := (reg s)(PC := reg s (Idx r))\<rparr>"

definition JNE :: "jsval \<Rightarrow> jsval \<Rightarrow> cpu \<Rightarrow> cpu" where
  "JNE r unused s =
     (if \<not> js_truthy (getFlag FLAG_EQ s)
      then s\<lparr>reg := (reg s)(PC := reg s (Idx r))\<rparr>
      else alu ALU_ADD PC (Some NullKey) (Some (Num 2)) s)"

definition LD :: "jsval \<Rightarrow> jsval \<Rightarrow> cpu \<Rightarrow> cpu" where
  "LD regA regB s =
     (let val = ram_read (ram s) (reg s (Idx regB))
      in s\<lparr>reg := (reg s)(Idx regA := val)\<rparr>)"

definition LDI :: "jsval \<Rightarrow> jsval \<Rightarrow> cpu \<Rightarrow> cpu" where
  "LDI r val s = s\<lparr>reg := (reg s)(Idx r := val)\<rparr>"

definition MOD :: "jsval \<Rightarrow> jsval \<Rightarrow> cpu \<Rightarrow> cpu" where
  "MOD regA regB s = alu ALU_MOD (Idx regA) (Some (Idx regB)) None s"

definition MUL :: "jsval \<Rightarrow> jsval \<Rightarrow> cpu \<Rightarrow> cpu" where
  "MUL regA regB s = alu ALU_MUL (Idx regA) (Some (Idx regB)) None s"

definition NOP :: "jsval \<Rightarrow> jsval \<Rightarrow> cpu \<Rightarrow> cpu" where
  "NOP unusedA unusedB s = s"

definition NOT :: "jsval \<Rightarrow> jsval \<Rightarrow> cpu \<Rightarrow> cpu" where
  "NOT r unused s = alu ALU_NOT (Idx r) None None s"

definition OR :: "jsval \<Rightarrow> jsval \<Rightarrow> cpu \<Rightarrow> cpu" where
  "OR regA regB s = alu ALU_OR (Idx regA) (Some (Idx regB)) None s"

definition POP :: "jsval \<Rightarrow> jsval \<Rightarrow> cpu \<Rightarrow> cpu" where
  "POP r unused s = (case pop s of (v, s1) \<Rightarrow> s1\<lparr>reg := (reg s1)(Idx r := v)\<rparr>)"

definition PRA :: "jsval \<Rightarrow> jsval \<Rightarrow> cpu \<Rightarrow> cpu" where
  "PRA r unused s = console_log (StdoutChar (reg s (Idx r))) s"

definition PRN :: "jsval \<Rightarrow> jsval \<Rightarrow> cpu \<Rightarrow> cpu" where
  "PRN r unused s = console_log (ConsoleLogValue (reg s (Idx r))) s"

definition PUSH :: "jsval \<Rightarrow> jsval \<Rightarrow> cpu \<Rightarrow> cpu" where
  "PUSH r unused s = push (reg s (Idx r)) s"

definition RET :: "jsval \<Rightarrow> jsval \<Rightarrow> cpu \<Rightarrow> cpu" where
  "RET unusedA unusedB s = (case pop s of (v, s1) \<Rightarrow> s1\<lparr>reg := (reg s1)(PC := v)\<rparr>)"

definition SHL :: "jsval \<Rightarrow> jsval \<Rightarrow> cpu \<Rightarrow> cpu" where
  "SHL regA regB s = alu ALU_SHL (Idx regA) (Some (Idx regB)) None s"

definition SHR :: "jsval \<Rightarrow> jsval \<Rightarrow> cpu \<Rightarrow> cpu" where
  "SHR regA regB s = alu ALU_SHR (Idx regA) (Some (Idx regB)) None s"

definition ST :: "jsval \<Rightarrow> jsval \<Rightarrow> cpu \<Rightarrow> cpu" where
  "ST regA regB s = s\<lparr>ram := ram_write (ram s) (reg s (Idx regA)) (reg s (Idx regB))\<rparr>"

definition SUB :: "jsval \<Rightarrow> jsval \<Rightarrow> cpu \<Rightarrow> cpu" where
  "SUB regA regB s = alu ALU_SUB (Idx regA) (Some (Idx regB)) None s"

definition XOR :: "jsval \<Rightarrow> jsval \<Rightarrow> cpu \<Rightarrow> cpu" where
  "XOR regA regB s = alu ALU_XOR (Idx regA) (Some (Idx regB)) None s"

section \<open>Opcodes and the branch table\<close>

text \<open>The opcode constants, written in binary as in the source.\<close>

definition opcode_ADD :: rat where "opcode_ADD = 0b10100000"
definition opcode_AND :: rat where "opcode_AND = 0b10101000"
definition opcode_CALL :: rat where "opcode_CALL = 0b01010000"
definition opcode_CMP :: rat where "opcode_CMP = 0b10100111"
definition opcode_DEC :: rat where "opcode_DEC = 0b01100110"
definition opcode_DIV :: rat where "opcode_DIV = 0b10100011"
definition opcode_HLT :: rat where "opcode_HLT = 0b00000001"
definition opcode_INC :: rat where "opcode_INC = 0b01100101"
definition opcode_INT :: rat where "opcode_INT = 0b01010010"
definition opcode_IRET :: rat where "opcode_IRET = 0b00010011"
definition opcode_JEQ :: rat where "opcode_JEQ = 0b01010101"
definition opcode_JGE :: rat where "opcode_JGE = 0b01011010"
definition opcode_JGT :: rat where "opcode_JGT = 0b01010111"
definition opcode_JLE :: rat where "opcode_JLE = 0b01011001"
definition opcode_JLT :: rat where "opcode_JLT = 0b01011000"
definition opcode_JMP :: rat where "opcode_JMP = 0b01010100"
definition opcode_JNE :: rat where "opcode_JNE = 0b01010110"
definition opcode_LD :: rat where "opcode_LD = 0b10000011"
definition opcode_LDI :: rat where "opcode_LDI = 0b10000010"
definition opcode_MOD :: rat where "opcode_MOD = 0b10100100"
definition opcode_MUL :: rat where "opcode_MUL = 0b10100010"
definition opcode_NOP :: rat where "opcode_NOP = 0b00000000"
definition opcode_NOT :: rat where "opcode_NOT = 0b01101001"
definition opcode_OR :: rat where "opcode_OR = 0b10101010"
definition opcode_POP :: rat where "opcode_POP = 0b01000110"
definition opcode_PRA :: rat where "opcode_PRA = 0b01001000"
definition opcode_PRN :: rat where "opcode_PRN = 0b01000111"
definition opcode_PUSH :: rat where "opcode_PUSH = 0b01000101"
definition opcode_RET :: rat where "opcode_RET = 0b00010001"
definition opcode_SHL :: rat where "opcode_SHL = 0b10101100"
definition opcode_SHR :: rat where "opcode_SHR = 0b10101101"
definition opcode_ST :: rat where "opcode_ST = 0b10000100"
definition opcode_SUB :: rat where "opcode_SUB = 0b10100001"
definition opcode_XOR :: rat where "opcode_XOR = 0b10101011"

text \<open>
  \<^verbatim>\<open>setupBranchTable\<close> builds an object keyed by opcode; a key that is absent, and any
  key that is not one of these numbers, looks up as \<^verbatim>\<open>undefined\<close> (\<open>None\<close>).
\<close>

type_synonym handler = "jsval \<Rightarrow> jsval \<Rightarrow> cpu \<Rightarrow> cpu"

definition bt_entries :: "(rat \<times> handler) list" where
  "bt_entries =
     [(opcode_ADD, ADD), (opcode_AND, AND), (opcode_CALL, CALL), (opcode_CMP, CMP),
      (opcode_DEC, DEC), (opcode_DIV, DIV), (opcode_HLT, HLT), (opcode_INC, INC),
      (opcode_INT, INT_handler), (opcode_IRET, IRET), (opcode_JEQ, JEQ),
      (opcode_JGE, JGE), (opcode_JGT, JGT), (opcode_JLE, JLE), (opcode_JLT, JLT),
      (opcode_JMP, JMP), (opcode_JNE, JNE), (opcode_LD, LD), (opcode_LDI, LDI),
      (opcode_MOD, MOD), (opcode_MUL, MUL), (opcode_NOP, NOP), (opcode_NOT, NOT),
      (opcode_OR, OR), (opcode_POP, POP), (opcode_PRA, PRA), (opcode_PRN, PRN),
      (opcode_PUSH, PUSH), (opcode_RET, RET), (opcode_SHL, SHL), (opcode_SHR, SHR),
      (opcode_ST, ST), (opcode_SUB, SUB), (opcode_XOR, XOR)]"

definition branchTable :: "jsval \<Rightarrow> handler option" where
  "branchTable ir = (case ir of Num q \<Rightarrow> map_of bt_entries q | _ \<Rightarrow> None)"

section \<open>One tick\<close>

text \<open>
  The interrupt block of \<^verbatim>\<open>tick\<close>: the body run for the first line \<open>i\<close> whose bit is
  set in the masked interrupts, the scan of the lines 0 to 7 that stops there, and the guard
  on \<^verbatim>\<open>interruptsEnabled\<close>.
\<close>

definition service_interrupt :: "nat \<Rightarrow> cpu \<Rightarrow> cpu" where
  "service_interrupt i s =
     (let s1 = s\<lparr>interruptsEnabled := False\<rparr>;
          s2 = s1\<lparr>reg := (reg s1)(Idx IS := js_and (reg s1 (Idx IS)) (js_not (intMask_at i)))\<rparr>;
          s3 = push (reg s2 PC) s2;
          s4 = push (reg s3 FL) s3;
          s5 = foldl (\<lambda>t r. push (reg t (Idx (Num (of_nat r)))) t) s4 [0..<7];
          vector = ram_read (ram s5) (js_add (Num 0xF8) (Num (of_nat i)))
      in s5\<lparr>reg := (reg s5)(PC := vector)\<rparr>)"

primrec scan_interrupts :: "jsval \<Rightarrow> nat list \<Rightarrow> cpu \<Rightarrow> cpu" where
  "scan_interrupts maskedInterrupts [] s = s"
| "scan_interrupts maskedInterrupts (i # rest) s =
     (if js_seq (js_and (js_sar maskedInterrupts (Num (of_nat i))) (Num 1)) (Num 1)
      then service_interrupt i s
      else scan_interrupts maskedInterrupts rest s)"

definition interrupt_check :: "cpu \<Rightarrow> cpu" where
  "interrupt_check s =
     (if interruptsEnabled s
      then scan_interrupts (js_and (reg s (Idx IS)) (reg s (Idx IM))) [0..<8] s
      else s)"

text \<open>
  The rest of \<^verbatim>\<open>tick\<close>: fetch, decode, operand reads, handler call and PC advance.
  The error message is built with \<^verbatim>\<open>this.reg.IR.toString(2)\<close>, which throws a TypeError
  when IR is \<^verbatim>\<open>undefined\<close>.
\<close>

definition fetch_execute :: "cpu \<Rightarrow> js_error + cpu" where
  "fetch_execute s =
     (let s1 = s\<lparr>reg := (reg s)(IR := ram_read (ram s) (reg s PC))\<rparr>
      in case branchTable (reg s1 IR) of
           None \<Rightarrow>
             (if reg s1 IR = Undefined then Inl TypeError
              else Inr (stop (console_log (ConsoleLogInvalid (reg s1 IR)) s1)))
         | Some handler \<Rightarrow>
             (let operandA = ram_read (ram s1) (js_and (js_add (reg s1 PC) (Num 1)) (Num 0xFF));
                  operandB = ram_read (ram s1) (js_and (js_add (reg s1 PC) (Num 2)) (Num 0xFF));
                  s2 = handler operandA operandB s1;
                  pcAdvance = js_seq (js_and (reg s2 IR) (Num 0b00010000)) (Num 0)
              in if pcAdvance
                 then (let operandCount = js_and (js_sar (reg s2 IR) (Num 6)) (Num 0b11);
                           instSize = js_add operandCount (Num 1)
                       in Inr (alu ALU_ADD PC (Some NullKey) (Some instSize) s2))
                 else Inr s2))"

definition tick :: "cpu \<Rightarrow> js_error + cpu" where
  "tick s = fetch_execute (interrupt_check s)"

section \<open>Byte values\<close>

text \<open>
  The data model of the engine keeps every register in 0..255. \<open>byte_val w\<close> is the
  JavaScript number of the byte \<open>w\<close>; on such values the masked arithmetic of the ALU
  is arithmetic of 8-bit words.
\<close>

lemma trunc_of_int [simp]: "trunc (of_int k) = k"
  by (simp add: trunc_def)

lemma trunc_numeral [simp]: "trunc (numeral n) = numeral n" "trunc 1 = 1" "trunc 0 = 0"
  by (simp_all add: trunc_def)

lemma uint8_less: "uint (w::8 word) < 256"
  using uint_lt2p [of w] by simp

lemma signed_take_bit_uint8 [simp]: "signed_take_bit 31 (uint (w::8 word)) = uint w"
proof -
  have "- (2 ^ 31) \<le> uint w"
    by (rule order_trans [OF _ uint_ge_0]) simp
  moreover have "uint w < 2 ^ 31"
    by (rule less_trans [OF uint8_less]) simp
  ultimately show ?thesis by (rule signed_take_bit_int_eq_self)
qed

lemma take_bit_uint8 [simp]: "take_bit 32 (uint (w::8 word)) = uint w"
proof -
  have "uint w < 2 ^ 32"
    by (rule less_trans [OF uint8_less]) simp
  with uint_ge_0 show ?thesis by (rule take_bit_int_eq_self)
qed

lemma byte_val_uint: "byte_val w = Num (of_int (uint w))"
  by (simp add: byte_val_def)

lemma to_int32_byte [simp]: "to_int32 (byte_val w) = uint w"
  by (simp add: byte_val_def del: of_int_uint)

lemma to_uint32_byte [simp]: "to_uint32 (byte_val w) = uint w"
  by (simp add: byte_val_def del: of_int_uint)

lemma byte_val_inj [simp]: "byte_val a = byte_val b \<longleftrightarrow> a = b"
  by (simp add: byte_val_def word_uint_eq_iff del: of_int_uint)

lemma byte_val_neq [simp]: "byte_val a \<noteq> Undefined" "byte_val a \<noteq> NaN" "byte_val a \<noteq> PInf" "byte_val a \<noteq> NInf"
  by (simp_all add: byte_val_def)

lemma addr_byte [simp]: "addr (byte_val w) = Some w"
  using uint8_less [of w] by (simp add: addr_def byte_val_def word_of_int_uint del: of_int_uint)

lemma to_uint8_byte [simp]: "to_uint8 (byte_val w) = w"
  by (simp add: to_uint8_def)

lemma ram_read_byte [simp]: "ram_read m (byte_val w) = byte_val (m w)"
  by (simp add: ram_read_def)

lemma ram_write_byte [simp]: "ram_write m (byte_val w) v = m(w := to_uint8 v)"
  by (simp add: ram_write_def)

lemma and_255_int: "and (signed_take_bit 31 k) 255 = uint (word_of_int k :: 8 word)"
proof -
  have "and (signed_take_bit 31 k) 255 = take_bit 8 (signed_take_bit 31 k)"
    using take_bit_eq_mask [of 8 "signed_take_bit 31 k"] by (simp add: mask_eq_exp_minus_1)
  also have "\<dots> = take_bit 8 k"
    by (simp add: take_bit_signed_take_bit)
  also have "\<dots> = uint (word_of_int k :: 8 word)"
    by (simp add: uint_word_of_int take_bit_eq_mod)
  finally show ?thesis .
qed

lemma js_and_255: "js_and (Num (of_int k)) (Num 255) = byte_val (word_of_int k)"
  using and_255_int [of k] by (simp add: js_and_def byte_val_def del: of_int_uint)

lemma byte_val_numeral: "byte_val 1 = Num 1" "byte_val 2 = Num 2" "byte_val 0 = Num 0"
  by (simp_all add: byte_val_def)

lemma js_add_byte: "js_add (byte_val a) (byte_val b) = Num (of_int (uint a + uint b))"
  by (simp add: byte_val_def del: of_int_uint)

lemma js_sub_byte: "js_sub (byte_val a) (byte_val b) = Num (of_int (uint a - uint b))"
  by (simp add: byte_val_def js_sub_def del: of_int_uint)

lemma js_add_wrap: "js_and (js_add (byte_val a) (byte_val b)) (Num 255) = byte_val (a + b)"
proof -
  have "js_and (js_add (byte_val a) (byte_val b)) (Num 255) = byte_val (word_of_int (uint a + uint b))"
    by (simp only: js_add_byte js_and_255)
  then show ?thesis by simp
qed

lemma js_sub_wrap: "js_and (js_sub (byte_val a) (byte_val b)) (Num 255) = byte_val (a - b)"
proof -
  have "js_and (js_sub (byte_val a) (byte_val b)) (Num 255) = byte_val (word_of_int (uint a - uint b))"
    by (simp only: js_sub_byte js_and_255)
  then show ?thesis by simp
qed

lemma js_inc_byte: "js_and (js_add (byte_val w) (Num 1)) (Num 255) = byte_val (w + 1)"
  using js_add_wrap [of w 1] by (simp add: byte_val_numeral)

lemma js_dec_byte: "js_and (js_sub (byte_val w) (Num 1)) (Num 255) = byte_val (w - 1)"
  using js_sub_wrap [of w 1] by (simp add: byte_val_numeral)

lemma push_byte:
  assumes "reg s (Idx SP) = byte_val sp"
  shows "push v s = s\<lparr>reg := (reg s)(Idx SP := byte_val (sp - 1)),
                       ram := (ram s)(sp - 1 := to_uint8 v)\<rparr>"
  using assms by (simp add: push_def alu_def set_reg_def js_dec_byte)

lemma pop_byte:
  assumes "reg s (Idx SP) = byte_val sp"
  shows "pop s = (byte_val (ram s sp), s\<lparr>reg := (reg s)(Idx SP := byte_val (sp + 1))\<rparr>)"
  using assms by (simp add: pop_def alu_def set_reg_def js_inc_byte)

subsection \<open>Bitwise operations and flags on bytes\<close>

lemma uint_and_signed: "and (uint (a::8 word)) (signed_take_bit 31 k) = uint (and a (word_of_int k))"
  by (rule bit_eqI) (auto simp: bit_simps dest: bit_imp_le_length)

lemma js_and_byte_int: "js_and (byte_val a) (Num (of_int k)) = byte_val (and a (word_of_int k))"
  using uint_and_signed [of a k] by (simp add: js_and_def byte_val_def del: of_int_uint)

lemma js_and_byte: "js_and (byte_val a) (byte_val b) = byte_val (and a b)"
  by (simp add: js_and_def byte_val_uint uint_and del: of_int_uint)

lemma js_or_byte: "js_or (byte_val a) (byte_val b) = byte_val (or a b)"
  by (simp add: js_or_def byte_val_uint uint_or del: of_int_uint)

lemma js_xor_byte: "js_xor (byte_val a) (byte_val b) = byte_val (xor a b)"
  by (simp add: js_xor_def byte_val_uint uint_xor del: of_int_uint)

lemma Num_int_byte: "0 \<le> k \<Longrightarrow> k < 256 \<Longrightarrow> Num (of_int k) = byte_val (word_of_int k)"
  by (simp add: byte_val_uint uint_word_of_int del: of_int_uint)

lemma pow2_bounds:
  assumes "k < 8"
  shows "(2::int) ^ k < 256" "(2::int) ^ k < 2 ^ 31" "- (2 ^ 31) \<le> (2::int) ^ k"
proof -
  have "(2::int) ^ k < 2 ^ 8"
    using assms by (intro power_strict_increasing) simp_all
  then show "(2::int) ^ k < 256" by simp
  show "(2::int) ^ k < 2 ^ 31"
    using assms by (intro power_strict_increasing) simp_all
  show "- (2 ^ 31) \<le> (2::int) ^ k"
    by (rule order_trans [of _ 0]) simp_all
qed

lemma js_shl_1:
  assumes "k < 8"
  shows "js_shl (Num 1) (Num (of_nat k)) = byte_val (2 ^ k)"
proof -
  have t: "take_bit 32 (int k) = int k"
    using assms by (simp add: take_bit_int_eq_self)
  have p: "signed_take_bit 31 (2 ^ k :: int) = 2 ^ k"
    using pow2_bounds(2,3) [OF assms] by (intro signed_take_bit_int_eq_self)
  have "js_shl (Num 1) (Num (of_nat k)) = Num (of_int (2 ^ k))"
    using assms t p by (simp add: js_shl_def trunc_def push_bit_eq_mult)
  also have "\<dots> = byte_val (word_of_int (2 ^ k))"
    using pow2_bounds(1) [OF assms] by (intro Num_int_byte) simp_all
  finally show ?thesis by simp
qed

lemma js_not_byte: "js_not (byte_val w) = Num (of_int (not (uint w)))"
  by (simp add: js_not_def)

lemma js_and_not_byte: "js_and (byte_val a) (js_not (byte_val b)) = byte_val (and a (not b))"
  by (simp only: js_not_byte js_and_byte_int) (simp add: of_int_not_eq word_of_int_uint)

lemma setFlag_byte:
  assumes "k < 8" and "reg s FL = byte_val fl"
  shows "setFlag (Num (of_nat k)) v s =
         s\<lparr>reg := (reg s)(FL := byte_val (if v then or fl (2 ^ k) else and fl (not (2 ^ k))))\<rparr>"
  using assms by (simp add: setFlag_def js_shl_1 js_or_byte js_and_not_byte)

lemma drop_bit_and_pow2:
  assumes "k < 8"
  shows "drop_bit k (uint (and (fl::8 word) (2 ^ k))) = of_bool (bit fl k)"
  by (rule bit_eqI) (use assms in \<open>auto simp: bit_simps\<close>)

lemma getFlag_byte:
  assumes "k < 8" and "reg s FL = byte_val fl"
  shows "getFlag (Num (of_nat k)) s = Num (of_bool (bit fl k))"
proof -
  have t: "take_bit 32 (int k) = int k"
    using assms by (simp add: take_bit_int_eq_self)
  show ?thesis
    using assms t by (simp add: getFlag_def js_shl_1 js_and_byte js_sar_def drop_bit_and_pow2 trunc_def)
qed

lemmas setFlag_EQ = setFlag_byte [of 0, simplified, folded FLAG_EQ_def]
lemmas setFlag_GT = setFlag_byte [of 1, simplified, folded FLAG_GT_def]
lemmas setFlag_LT = setFlag_byte [of 2, simplified, folded FLAG_LT_def]
lemmas getFlag_EQ = getFlag_byte [of 0, simplified, folded FLAG_EQ_def]
lemmas getFlag_GT = getFlag_byte [of 1, simplified, folded FLAG_GT_def]
lemmas getFlag_LT = getFlag_byte [of 2, simplified, folded FLAG_LT_def]

lemma flags_eq: "and (and (or fl 1) (- 3)) (- 5) = or (and (fl::8 word) 0xF8) 1"
  by (rule bit_word_eqI) (auto simp: bit_simps numeral_eq_Suc less_Suc_eq_0_disj)

lemma flags_gt: "and (or (and fl (- 2)) 2) (- 5) = or (and (fl::8 word) 0xF8) 2"
  by (rule bit_word_eqI) (auto simp: bit_simps numeral_eq_Suc less_Suc_eq_0_disj)

lemma flags_lt: "or (and (and fl (- 2)) (- 3)) 4 = or (and (fl::8 word) 0xF8) 4"
  by (rule bit_word_eqI) (auto simp: bit_simps numeral_eq_Suc less_Suc_eq_0_disj)

lemma flag_bits:
  "bit (or (and (fl::8 word) 0xF8) 1) 0"
  "\<not> bit (or (and (fl::8 word) 0xF8) 1) (Suc 0)"
  "\<not> bit (or (and (fl::8 word) 0xF8) 1) 2"
  "\<not> bit (or (and (fl::8 word) 0xF8) 2) 0"
  "bit (or (and (fl::8 word) 0xF8) 2) (Suc 0)"
  "\<not> bit (or (and (fl::8 word) 0xF8) 2) 2"
  "\<not> bit (or (and (fl::8 word) 0xF8) 4) 0"
  "\<not> bit (or (and (fl::8 word) 0xF8) 4) (Suc 0)"
  "bit (or (and (fl::8 word) 0xF8) 4) 2"
  by (simp_all add: bit_simps)

lemma to_uint8_int: "to_uint8 (Num (of_int k)) = word_of_int k"
  by (simp add: to_uint8_def word_of_int_eq_iff take_bit_signed_take_bit)

lemma push_return_address: "to_uint8 (js_add (byte_val p) (Num 2)) = p + 2"
proof -
  have "js_add (byte_val p) (Num 2) = Num (of_int (uint p + 2))"
    using js_add_byte [of p 2] by (simp add: byte_val_numeral)
  then show ?thesis
    by (simp only: to_uint8_int) (simp add: word_of_int_uint)
qed

section \<open>Results out of the byte range\<close>

text \<open>The masked operations do wrap: ADD on 250 and 10 stores 4.\<close>

lemma ADD_wraps_250_10:
  "reg (ADD (Num 0) (Num 1) (s\<lparr>reg := (reg s)(Idx (Num 0) := Num 250, Idx (Num 1) := Num 10)\<rparr>))
       (Idx (Num 0)) = Num 4"
  by (simp add: ADD_def alu_def set_reg_def js_and_def Let_def)

text \<open>MOD on byte operands with a nonzero divisor is the remainder, a byte.\<close>

lemma MOD_on_bytes:
  assumes "b \<noteq> 0"
  shows "js_mod (byte_val a) (byte_val b) = byte_val (a mod b)"
proof -
  have nz: "uint b \<noteq> 0"
    using assms by (simp add: uint_0_iff)
  have pos: "0 \<le> uint a" "0 < uint b"
    using nz uint_ge_0 [of b] by (simp, linarith)
  have "(of_int (uint a) :: rat) / of_int (uint b) \<ge> 0"
    using pos by (intro divide_nonneg_nonneg) (simp_all del: of_int_uint)
  then have "trunc (of_int (uint a) / of_int (uint b)) = \<lfloor>(of_int (uint a) :: rat) / of_int (uint b)\<rfloor>"
    by (metis trunc_def leD)
  then have "trunc (of_int (uint a) / of_int (uint b)) = uint a div uint b"
    by (simp only: floor_divide_of_int_eq)
  then have "js_mod (byte_val a) (byte_val b)
      = Num (of_int (uint a - uint b * (uint a div uint b)))"
    using nz by (simp add: byte_val_uint del: of_int_uint)
  also have "uint a - uint b * (uint a div uint b) = uint (a mod b)"
    by (simp add: uint_mod minus_mult_div_eq_mod)
  finally show ?thesis
    by (simp only: byte_val_uint)
qed

text \<open>
  Claim C2 (every register holds an integer in 0..255 after any handler or ALU operation,
  NOT, DIV and MOD included). \<^verbatim>\<open>case 'NOT'\<close> stores \<^verbatim>\<open>~valA\<close> without the
  \<^verbatim>\<open>& 255\<close> that ADD, SUB, MUL, INC, DEC, SHL and SHR apply: in any state, once register
  \<open>r\<close> holds 5, the handler NOT leaves \<open>-6\<close> in it, which is not a byte.
\<close>

theorem NOT_result_outside_byte_range:
  "reg (NOT r b (s\<lparr>reg := (reg s)(Idx r := Num 5)\<rparr>)) (Idx r) = Num (- 6)
   \<and> addr (Num (- 6)) = None"
  by (simp add: NOT_def alu_def set_reg_def js_not_def addr_def Let_def)

text \<open>
  Claim C3 (DIV or MOD with a zero second operand halts at once and does not write the
  destination). \<^verbatim>\<open>this.stop()\<close> is called, but no \<^verbatim>\<open>break\<close> or \<^verbatim>\<open>return\<close> follows
  it, so the assignment below it still runs: with R0 = 5 and R1 = 0, DIV R0,R1 stops the clock
  and stores Infinity in R0, and MOD R0,R1 stops the clock and stores NaN.
\<close>

theorem DIV_MOD_by_zero_still_write:
  "reg (DIV (Num 0) (Num 1) (s\<lparr>reg := (reg s)(Idx (Num 0) := Num 5, Idx (Num 1) := Num 0)\<rparr>))
       (Idx (Num 0)) = PInf
   \<and> stopped (DIV (Num 0) (Num 1) (s\<lparr>reg := (reg s)(Idx (Num 0) := Num 5, Idx (Num 1) := Num 0)\<rparr>))
   \<and> reg (MOD (Num 0) (Num 1) (s\<lparr>reg := (reg s)(Idx (Num 0) := Num 5, Idx (Num 1) := Num 0)\<rparr>))
       (Idx (Num 0)) = NaN
   \<and> stopped (MOD (Num 0) (Num 1) (s\<lparr>reg := (reg s)(Idx (Num 0) := Num 5, Idx (Num 1) := Num 0)\<rparr>))"
  by (simp add: DIV_def MOD_def alu_def set_reg_def stop_def console_log_def Let_def)

text \<open>
  Claim C9 (DIV stores the integer quotient, MOD the integer remainder). \<^verbatim>\<open>case 'DIV'\<close>
  stores \<^verbatim>\<open>valA / valB\<close>, the quotient of JavaScript numbers, with no truncation or mask:
  with R0 = 7 and R1 = 2, DIV R0,R1 leaves 3.5 in R0, not 3.
\<close>

theorem DIV_quotient_not_truncated:
  "reg (DIV (Num 0) (Num 1) (s\<lparr>reg := (reg s)(Idx (Num 0) := Num 7, Idx (Num 1) := Num 2)\<rparr>))
       (Idx (Num 0)) = Num (7 / 2)
   \<and> Num (7 / 2) \<noteq> Num (of_int (7 div 2))"
  by (simp add: DIV_def alu_def set_reg_def Let_def)

section \<open>PUSH and POP\<close>

text \<open>
  Claim C7. In every state whose stack pointer and register \<open>r\<close> hold bytes: PUSH
  decrements SP (modulo 256) and then writes the value of register \<open>r\<close> at the new SP;
  POP reads the cell at SP, increments SP (modulo 256) and stores the cell in register
  \<open>r\<close>; and PUSH \<open>r\<close> followed by POP \<open>r\<close> gives back the starting state, SP and
  register \<open>r\<close> included, except for the stack cell that was written. No bound is
  checked: the word arithmetic on \<open>sp\<close> wraps. The register may be R7 itself.
\<close>

theorem PUSH_POP_roundtrip:
  assumes "reg s (Idx SP) = byte_val sp" and "reg s (Idx r) = byte_val v"
  shows "PUSH r a s = s\<lparr>reg := (reg s)(Idx SP := byte_val (sp - 1)), ram := (ram s)(sp - 1 := v)\<rparr>
    \<and> POP r b s = s\<lparr>reg := (reg s)(Idx SP := byte_val (sp + 1), Idx r := byte_val (ram s sp))\<rparr>
    \<and> POP r b (PUSH r a s) = s\<lparr>ram := (ram s)(sp - 1 := v)\<rparr>"
proof -
  have 1: "PUSH r a s = s\<lparr>reg := (reg s)(Idx SP := byte_val (sp - 1)), ram := (ram s)(sp - 1 := v)\<rparr>"
    using assms by (simp add: PUSH_def push_byte)
  have 2: "POP r b s = s\<lparr>reg := (reg s)(Idx SP := byte_val (sp + 1), Idx r := byte_val (ram s sp))\<rparr>"
    using assms(1) by (simp add: POP_def pop_byte)
  have "(reg s)(Idx SP := byte_val sp, Idx r := byte_val v) = reg s"
    using assms by (auto simp: fun_eq_iff)
  then have 3: "POP r b (PUSH r a s) = s\<lparr>ram := (ram s)(sp - 1 := v)\<rparr>"
    by (simp add: 1 POP_def pop_byte [where sp = "sp - 1"])
  from 1 2 3 show ?thesis by simp
qed

text \<open>
  The theorem at the reset state after LDI R0,42: SP is 0xF4, and the pair PUSH R0, POP R0
  leaves 42 in the cell 0xF3 and nothing else changed.
\<close>

theorem PUSH_POP_roundtrip_witness:
  "reg (LDI (Num 0) (Num 42) (new_cpu (\<lambda>a. 0))) (Idx SP) = byte_val 0xF4
   \<and> reg (LDI (Num 0) (Num 42) (new_cpu (\<lambda>a. 0))) (Idx (Num 0)) = byte_val 42
   \<and> POP (Num 0) (Num 0) (PUSH (Num 0) (Num 0) (LDI (Num 0) (Num 42) (new_cpu (\<lambda>a. 0))))
       = (LDI (Num 0) (Num 42) (new_cpu (\<lambda>a. 0)))\<lparr>ram := (\<lambda>a. 0)(0xF3 := 42)\<rparr>"
proof -
  let ?s = "LDI (Num 0) (Num 42) (new_cpu (\<lambda>a. 0))"
  have h1: "reg ?s (Idx SP) = byte_val 0xF4"
    by (simp add: LDI_def new_cpu_def SP_def IM_def IS_def byte_val_def)
  have h2: "reg ?s (Idx (Num 0)) = byte_val 42"
    by (simp add: LDI_def byte_val_def)
  have h3: "ram ?s = (\<lambda>a. 0)"
    by (simp add: LDI_def new_cpu_def)
  have "POP (Num 0) (Num 0) (PUSH (Num 0) (Num 0) ?s) = ?s\<lparr>ram := (ram ?s)(0xF4 - 1 := 42)\<rparr>"
    using PUSH_POP_roundtrip [OF h1 h2] by blast
  with h1 h2 h3 show ?thesis
    by simp
qed

section \<open>CMP\<close>

text \<open>
  Claim C8. For every CMP whose two operand registers hold the numbers \<open>a\<close> and \<open>b\<close>
  (raw values, not masked: they may be negative or fractional) and every byte \<open>fl\<close> in
  FL: the only thing CMP changes is FL, so the destination register keeps its value; the bits
  3 to 7 of FL are kept and the bits 0 to 2 become EQ = (a = b), GT = (a > b), LT = (a < b),
  of which exactly one is set; \<^verbatim>\<open>getFlag\<close> then returns these three values.
\<close>

theorem CMP_sets_flags:
  assumes "reg s (Idx ra) = Num a" and "reg s (Idx rb) = Num b" and "reg s FL = byte_val fl"
  shows "CMP ra rb s =
           s\<lparr>reg := (reg s)(FL := byte_val (or (and fl 0xF8) (if a = b then 1 else if b < a then 2 else 4)))\<rparr>
       \<and> getFlag FLAG_EQ (CMP ra rb s) = Num (if a = b then 1 else 0)
       \<and> getFlag FLAG_GT (CMP ra rb s) = Num (if b < a then 1 else 0)
       \<and> getFlag FLAG_LT (CMP ra rb s) = Num (if a < b then 1 else 0)"
proof -
  let ?fl = "or (and fl 0xF8) (if a = b then 1 else if b < a then 2 else 4)"
  have 1: "CMP ra rb s = s\<lparr>reg := (reg s)(FL := byte_val ?fl)\<rparr>"
  proof -
    consider "a = b" | "b < a" | "a < b" by linarith
    then show ?thesis
    proof cases
      case 1
      then show ?thesis
        using assms by (simp add: CMP_def alu_def js_gt_def setFlag_EQ setFlag_GT setFlag_LT flags_eq)
    next
      case 2
      then show ?thesis
        using assms by (simp add: CMP_def alu_def js_gt_def setFlag_EQ setFlag_GT setFlag_LT flags_gt)
    next
      case 3
      then show ?thesis
        using assms by (simp add: CMP_def alu_def js_gt_def setFlag_EQ setFlag_GT setFlag_LT flags_lt)
    qed
  qed
  have fl: "reg (CMP ra rb s) FL = byte_val ?fl"
    by (simp add: 1)
  have 2: "getFlag FLAG_EQ (CMP ra rb s) = Num (if a = b then 1 else 0)"
    by (simp add: getFlag_EQ [OF fl] flag_bits)
  have 3: "getFlag FLAG_GT (CMP ra rb s) = Num (if b < a then 1 else 0)"
    by (simp add: getFlag_GT [OF fl] flag_bits)
  have 4: "getFlag FLAG_LT (CMP ra rb s) = Num (if a < b then 1 else 0)"
    by (simp add: getFlag_LT [OF fl] flag_bits)
  from 1 2 3 4 show ?thesis by blast
qed

text \<open>
  The theorem at CMP(5,5), CMP(7,3) and CMP(3,7), from the reset state with the operands
  loaded into R0 and R1: EQ=1, GT=0, LT=0 and R0 still 5; GT=1; LT=1.
\<close>

theorem CMP_sets_flags_witness:
  "reg (LDI (Num 1) (Num 5) (LDI (Num 0) (Num 5) (new_cpu (\<lambda>a. 0)))) (Idx (Num 0)) = Num 5
   \<and> reg (LDI (Num 1) (Num 5) (LDI (Num 0) (Num 5) (new_cpu (\<lambda>a. 0)))) (Idx (Num 1)) = Num 5
   \<and> reg (LDI (Num 1) (Num 5) (LDI (Num 0) (Num 5) (new_cpu (\<lambda>a. 0)))) FL = byte_val 0
   \<and> getFlag FLAG_EQ (CMP (Num 0) (Num 1) (LDI (Num 1) (Num 5) (LDI (Num 0) (Num 5) (new_cpu (\<lambda>a. 0))))) = Num 1
   \<and> getFlag FLAG_GT (CMP (Num 0) (Num 1) (LDI (Num 1) (Num 5) (LDI (Num 0) (Num 5) (new_cpu (\<lambda>a. 0))))) = Num 0
   \<and> getFlag FLAG_LT (CMP (Num 0) (Num 1) (LDI (Num 1) (Num 5) (LDI (Num 0) (Num 5) (new_cpu (\<lambda>a. 0))))) = Num 0
   \<and> reg (CMP (Num 0) (Num 1) (LDI (Num 1) (Num 5) (LDI (Num 0) (Num 5) (new_cpu (\<lambda>a. 0))))) (Idx (Num 0)) = Num 5
   \<and> getFlag FLAG_GT (CMP (Num 0) (Num 1) (LDI (Num 1) (Num 3) (LDI (Num 0) (Num 7) (new_cpu (\<lambda>a. 0))))) = Num 1
   \<and> getFlag FLAG_LT (CMP (Num 0) (Num 1) (LDI (Num 1) (Num 7) (LDI (Num 0) (Num 3) (new_cpu (\<lambda>a. 0))))) = Num 1"
proof -
  have r: "reg (LDI (Num 1) (Num y) (LDI (Num 0) (Num x) (new_cpu (\<lambda>a. 0)))) (Idx (Num 0)) = Num x"
          "reg (LDI (Num 1) (Num y) (LDI (Num 0) (Num x) (new_cpu (\<lambda>a. 0)))) (Idx (Num 1)) = Num y"
          "reg (LDI (Num 1) (Num y) (LDI (Num 0) (Num x) (new_cpu (\<lambda>a. 0)))) FL = byte_val 0"
    for x y
    by (simp_all add: LDI_def new_cpu_def byte_val_def)
  note A = CMP_sets_flags [OF r(1) r(2) r(3), of 5 5]
  note B = CMP_sets_flags [OF r(1) r(2) r(3), of 7 3]
  note C = CMP_sets_flags [OF r(1) r(2) r(3), of 3 7]
  have "reg (CMP (Num 0) (Num 1) (LDI (Num 1) (Num 5) (LDI (Num 0) (Num 5) (new_cpu (\<lambda>a. 0)))))
          (Idx (Num 0)) = Num 5"
    by (simp add: A [THEN conjunct1] r)
  then show ?thesis
    using A [THEN conjunct2] B [THEN conjunct2] C [THEN conjunct2] r [of 5 5]
    by simp
qed

section \<open>CALL and RET\<close>

text \<open>
  Claim C6, as the code has it. CALL pushes first and reads the operand register afterwards.
  For every CALL at a byte address \<open>p\<close> with the stack pointer a byte: CALL pushes
  \<open>p + 2\<close> (modulo 256) and sets PC to the value \<open>t\<close> of the operand register, for
  every operand register except R7; with R7, the stack pointer itself, PC becomes the
  decremented stack pointer \<open>t - 1\<close> (modulo 256). A RET executed in any later state whose
  stack pointer is back at the depth CALL left, with the pushed cell intact, sets PC to
  \<open>p + 2\<close> (modulo 256) and SP to its value before the CALL.
\<close>

theorem CALL_then_RET:
  assumes "reg s PC = byte_val p" and "reg s (Idx SP) = byte_val sp"
  shows "CALL r b s =
           s\<lparr>reg := (reg s)(Idx SP := byte_val (sp - 1),
                               PC := (if r = SP then byte_val (sp - 1) else reg s (Idx r))),
              ram := (ram s)(sp - 1 := p + 2)\<rparr>
       \<and> (\<forall>s'. reg s' (Idx SP) = byte_val (sp - 1) \<and> ram s' (sp - 1) = p + 2 \<longrightarrow>
              reg (RET a b' s') PC = byte_val (p + 2) \<and> reg (RET a b' s') (Idx SP) = byte_val sp)"
proof -
  have 1: "CALL r b s =
           s\<lparr>reg := (reg s)(Idx SP := byte_val (sp - 1),
                               PC := (if r = SP then byte_val (sp - 1) else reg s (Idx r))),
              ram := (ram s)(sp - 1 := p + 2)\<rparr>"
    using assms by (simp add: CALL_def push_byte push_return_address Let_def)
  have 2: "reg (RET a b' s') PC = byte_val (p + 2) \<and> reg (RET a b' s') (Idx SP) = byte_val sp"
    if "reg s' (Idx SP) = byte_val (sp - 1)" and "ram s' (sp - 1) = p + 2" for s'
    using that by (simp add: RET_def pop_byte [where sp = "sp - 1"])
  from 1 2 show ?thesis by blast
qed

text \<open>
  The theorem at the reset state after LDI R0,0x30, with the CALL at address 0: CALL R0 sets
  PC to 0x30 and leaves 2 in the cell 0xF3, and RET right after it sets PC to 2.
\<close>

theorem CALL_then_RET_witness:
  "reg (LDI (Num 0) (Num 0x30) (new_cpu (\<lambda>a. 0))) PC = byte_val 0
   \<and> reg (LDI (Num 0) (Num 0x30) (new_cpu (\<lambda>a. 0))) (Idx SP) = byte_val 0xF4
   \<and> reg (CALL (Num 0) (Num 0) (LDI (Num 0) (Num 0x30) (new_cpu (\<lambda>a. 0)))) PC = Num 0x30
   \<and> ram (CALL (Num 0) (Num 0) (LDI (Num 0) (Num 0x30) (new_cpu (\<lambda>a. 0)))) 0xF3 = 2
   \<and> reg (RET (Num 0) (Num 0) (CALL (Num 0) (Num 0) (LDI (Num 0) (Num 0x30) (new_cpu (\<lambda>a. 0)))))
         PC = Num 2"
proof -
  let ?s = "LDI (Num 0) (Num 0x30) (new_cpu (\<lambda>a. 0))"
  have h1: "reg ?s PC = byte_val 0"
    by (simp add: LDI_def new_cpu_def byte_val_def)
  have h2: "reg ?s (Idx SP) = byte_val 0xF4"
    by (simp add: LDI_def new_cpu_def byte_val_def SP_def IM_def IS_def)
  have h3: "reg ?s (Idx (Num 0)) = Num 0x30"
    by (simp add: LDI_def)
  note T = CALL_then_RET [OF h1 h2, of "Num 0" "Num 0" "Num 0" "Num 0"]
  have c: "reg (CALL (Num 0) (Num 0) ?s) PC = Num 0x30"
          "reg (CALL (Num 0) (Num 0) ?s) (Idx SP) = byte_val (0xF4 - 1)"
          "ram (CALL (Num 0) (Num 0) ?s) (0xF4 - 1) = 0 + 2"
    by (simp_all add: T [THEN conjunct1] h3 SP_def)
  have "reg (RET (Num 0) (Num 0) (CALL (Num 0) (Num 0) ?s)) PC = byte_val (0 + 2)"
    using T [THEN conjunct2] c(2) c(3) by blast
  then show ?thesis
    using h1 h2 c(1) c(3) by (simp add: byte_val_def)
qed

text \<open>
  Claim C6 as stated fails when the operand register is R7: at the reset state R7 holds
  0xF4, and CALL R7 sets PC to 0xF3, the stack pointer after the push.
\<close>

theorem CALL_SP_register_counterexample:
  "reg (new_cpu (\<lambda>a. 0)) (Idx (Num 7)) = Num 0xF4
   \<and> reg (CALL (Num 7) (Num 0) (new_cpu (\<lambda>a. 0))) PC = Num 0xF3"
proof -
  have 1: "reg (new_cpu (\<lambda>a. 0)) PC = byte_val 0"
    by (simp add: new_cpu_def byte_val_def)
  have 2: "reg (new_cpu (\<lambda>a. 0)) (Idx SP) = byte_val 0xF4"
    by (simp add: new_cpu_def byte_val_def SP_def IM_def IS_def)
  have "CALL (Num 7) (Num 0) (new_cpu (\<lambda>a. 0)) =
        (new_cpu (\<lambda>a. 0))\<lparr>reg := (reg (new_cpu (\<lambda>a. 0)))(Idx SP := byte_val (0xF4 - 1), PC := byte_val (0xF4 - 1)),
          ram := (ram (new_cpu (\<lambda>a. 0)))(0xF4 - 1 := 0 + 2)\<rparr>"
    using 1 2 by (simp add: CALL_def push_byte push_return_address Let_def SP_def)
  then show ?thesis
    using 2 by (simp add: byte_val_def SP_def)
qed

section \<open>Fetch, decode, execute\<close>

subsection \<open>What the handlers leave alone\<close>

lemma alu_other:
  "k \<noteq> regA \<Longrightarrow> k \<noteq> FL \<Longrightarrow> reg (alu op regA regB imm s) k = reg s k"
  by (cases op) (simp_all add: alu_def set_reg_def setFlag_def stop_def console_log_def Let_def)

lemma push_other: "k \<noteq> Idx SP \<Longrightarrow> reg (push v s) k = reg s k"
  by (simp add: push_def alu_def set_reg_def Let_def)

lemma pop_other: "k \<noteq> Idx SP \<Longrightarrow> reg (snd (pop s)) k = reg s k"
  by (simp add: pop_def alu_def set_reg_def Let_def)

lemma foldl_keeps:
  assumes "\<And>t r. P (f t r) = P t"
  shows "P (foldl f s xs) = P s"
  using assms by (induction xs arbitrary: s) simp_all

lemma IRET_keeps_IR: "reg (IRET a b s) IR = reg s IR"
proof -
  let ?f = "\<lambda>t r. case pop t of (v, t') \<Rightarrow> t'\<lparr>reg := (reg t')(Idx (Num (of_nat r)) := v)\<rparr>"
  have step: "reg (?f t r) IR = reg t IR" for t r
    using pop_other [of IR t] by (simp add: split_def)
  have "reg (foldl ?f s (rev [0..<7])) IR = reg s IR"
    by (rule foldl_keeps [where P = "\<lambda>t. reg t IR"]) (rule step)
  then show ?thesis
    using pop_other [of IR] by (simp add: IRET_def Let_def split_def)
qed

lemmas opcode_defs =
  opcode_ADD_def opcode_AND_def opcode_CALL_def opcode_CMP_def opcode_DEC_def opcode_DIV_def
  opcode_HLT_def opcode_INC_def opcode_INT_def opcode_IRET_def opcode_JEQ_def opcode_JGE_def
  opcode_JGT_def opcode_JLE_def opcode_JLT_def opcode_JMP_def opcode_JNE_def opcode_LD_def
  opcode_LDI_def opcode_MOD_def opcode_MUL_def opcode_NOP_def opcode_NOT_def opcode_OR_def
  opcode_POP_def opcode_PRA_def opcode_PRN_def opcode_PUSH_def opcode_RET_def opcode_SHL_def
  opcode_SHR_def opcode_ST_def opcode_SUB_def opcode_XOR_def

lemmas handler_defs =
  ADD_def AND_def CALL_def CMP_def DEC_def DIV_def HLT_def INC_def INT_handler_def
  JEQ_def JGE_def JGT_def JLE_def JLT_def JMP_def JNE_def LD_def LDI_def MOD_def MUL_def
  NOP_def NOT_def OR_def POP_def PRA_def PRN_def PUSH_def RET_def SHL_def SHR_def ST_def
  SUB_def XOR_def

lemma handlers_keep_IR:
  assumes "(k, h) \<in> set bt_entries"
  shows "reg (h a b s) IR = reg s IR"
  using assms
  by (auto simp: bt_entries_def handler_defs alu_other push_other pop_other IRET_keeps_IR
      stop_def console_log_def split_def Let_def)


lemma handlers_keep_PC:
  assumes "(of_int k, h) \<in> set bt_entries" and "\<not> bit k 4"
  shows "reg (h a b s) PC = reg s PC"
  using assms
  by (auto simp: bt_entries_def opcode_defs handler_defs alu_other push_other pop_other
      stop_def console_log_def split_def Let_def)

lemma branchTable_byte:
  assumes "branchTable (byte_val c) = Some h"
  shows "(of_int (uint c), h) \<in> set bt_entries"
  using assms by (auto simp: branchTable_def byte_val_def dest: map_of_SomeD simp del: of_int_uint)

lemma js_add_byte_int: "js_add (byte_val a) (Num (of_int k)) = Num (of_int (uint a + k))"
  by (simp add: byte_val_def del: of_int_uint)

lemma js_add2_byte: "js_and (js_add (byte_val w) (Num 2)) (Num 255) = byte_val (w + 2)"
  using js_add_wrap [of w 2] by (simp add: byte_val_numeral)

lemma js_seq_byte: "js_seq (byte_val a) (byte_val b) \<longleftrightarrow> a = b"
  by (simp add: byte_val_def word_uint_eq_iff del: of_int_uint)

lemma bit4_test: "js_seq (js_and (byte_val c) (Num 16)) (Num 0) \<longleftrightarrow> \<not> bit c 4"
proof -
  have "Num 16 = byte_val 16" by (simp add: byte_val_def)
  then have "js_and (byte_val c) (Num 16) = byte_val (and c (2 ^ 4))"
    by (simp add: js_and_byte)
  moreover have "and c 16 = 0 \<longleftrightarrow> \<not> bit c 4"
    using and_exp_eq_0_iff_not_bit [of c 4] by simp
  ultimately show ?thesis
    by (simp add: byte_val_numeral [symmetric] js_seq_byte)
qed

lemma operand_count: "js_and (js_sar (byte_val c) (Num 6)) (Num 3) = byte_val (and (drop_bit 6 c) 3)"
proof -
  have "uint (drop_bit 6 c) = drop_bit 6 (uint c)"
    by (rule bit_eqI) (auto simp: bit_simps dest: bit_imp_le_length)
  then have "js_sar (byte_val c) (Num 6) = Num (of_int (uint (drop_bit 6 c)))"
    by (simp add: js_sar_def)
  then have "js_sar (byte_val c) (Num 6) = byte_val (drop_bit 6 c)"
    by (simp only: byte_val_uint)
  moreover have "Num 3 = byte_val 3" by (simp add: byte_val_def)
  ultimately show ?thesis by (simp add: js_and_byte)
qed

lemma advance_pc:
  "js_and (js_add (byte_val p) (js_add (byte_val n) (Num 1))) (Num 255) = byte_val (p + 1 + n)"
proof -
  have "js_add (byte_val n) (Num 1) = Num (of_int (uint n + 1))"
    using js_add_byte_int [of n 1] by simp
  then have "js_and (js_add (byte_val p) (js_add (byte_val n) (Num 1))) (Num 255)
      = byte_val (word_of_int (uint p + (uint n + 1)))"
    by (simp only: js_add_byte_int js_and_255)
  then show ?thesis by (simp add: word_of_int_uint)
qed

lemma scan_interrupts_none: "scan_interrupts (Num 0) xs s = s"
  by (induction xs) (simp_all add: js_sar_def js_and_def)

lemma interrupt_check_idle:
  assumes "\<not> interruptsEnabled s \<or> js_and (reg s (Idx IS)) (reg s (Idx IM)) = Num 0"
  shows "interrupt_check s = s"
  using assms by (auto simp: interrupt_check_def scan_interrupts_none)

lemma new_cpu_idle: "interrupt_check (new_cpu m) = new_cpu m"
  by (rule interrupt_check_idle) (simp add: new_cpu_def IS_def IM_def SP_def js_and_def)

lemma new_cpu_regs:
  "reg (new_cpu m) PC = byte_val 0" "reg (new_cpu m) (Idx SP) = byte_val 0xF4"
  "ram (new_cpu m) = m" "reg (new_cpu m) (Idx (Num 7)) = Num 0xF4"
  "reg (new_cpu m) FL = byte_val 0"
  by (simp_all add: new_cpu_def IS_def IM_def SP_def byte_val_def)

subsection \<open>The fetch-and-execute part of a tick\<close>

lemma fetch_execute_handler:
  assumes "reg s1 PC = byte_val p"
    and "branchTable (byte_val (ram s1 p)) = Some h"
  shows "fetch_execute s1 = Inr
    (let c = ram s1 p;
         s2 = h (byte_val (ram s1 (p + 1))) (byte_val (ram s1 (p + 2)))
                (s1\<lparr>reg := (reg s1)(IR := byte_val c)\<rparr>)
     in if bit c 4 then s2
        else s2\<lparr>reg := (reg s2)(PC := byte_val (p + 1 + and (drop_bit 6 c) 3))\<rparr>)"
proof -
  let ?c = "ram s1 p"
  let ?s2 = "h (byte_val (ram s1 (p + 1))) (byte_val (ram s1 (p + 2)))
                (s1\<lparr>reg := (reg s1)(IR := byte_val ?c)\<rparr>)"
  note mem = branchTable_byte [OF assms(2)]
  have ir: "reg ?s2 IR = byte_val ?c"
    by (simp add: handlers_keep_IR [OF mem])
  have pc: "reg ?s2 PC = byte_val p" if "\<not> bit ?c 4"
    using that assms(1) by (simp add: handlers_keep_PC [OF mem] bit_uint_iff)
  show ?thesis
  proof (cases "bit ?c 4")
    case True
    then show ?thesis
      using assms ir
      by (simp add: fetch_execute_def Let_def js_inc_byte js_add2_byte bit4_test)
  next
    case False
    then show ?thesis
      using assms ir pc [OF False]
      by (simp add: fetch_execute_def Let_def js_inc_byte js_add2_byte bit4_test
          operand_count alu_def set_reg_def advance_pc)
  qed
qed

subsection \<open>The PC advance\<close>

text \<open>
  Claim C4. Take any tick in which an instruction executes: after the interrupt check, PC is
  the byte \<open>p\<close> and the byte \<open>c\<close> fetched there has the handler \<open>h\<close> in the branch
  table. The handler runs on the two bytes after \<open>p\<close>. If bit 4 of \<open>c\<close> is set, the
  tick ends in exactly the state the handler returned: the loop does not touch PC. If bit 4
  is clear, the tick ends in that state with only PC changed, to
  \<open>p + 1 + ((c >> 6) & 3)\<close> modulo 256.
\<close>

theorem tick_PC_advance:
  assumes "reg (interrupt_check s) PC = byte_val p"
    and "branchTable (byte_val (ram (interrupt_check s) p)) = Some h"
  shows "tick s = Inr
    (let s1 = interrupt_check s;
         c = ram s1 p;
         s2 = h (byte_val (ram s1 (p + 1))) (byte_val (ram s1 (p + 2)))
                (s1\<lparr>reg := (reg s1)(IR := byte_val c)\<rparr>)
     in if bit c 4 then s2
        else s2\<lparr>reg := (reg s2)(PC := byte_val (p + 1 + and (drop_bit 6 c) 3))\<rparr>)"
  using fetch_execute_handler [OF assms] by (simp add: tick_def Let_def)

text \<open>
  The theorem on two programs at address 0 of a fresh machine: LDI R0,42 (0x82, bit 4 clear,
  two operands) leaves PC = 3 and R0 = 42; JMP R7 (0x54, bit 4 set) leaves PC = 0xF4, the
  value of R7, with no advance.
\<close>

theorem tick_PC_advance_witness:
  "reg (interrupt_check (new_cpu ((\<lambda>a. 0)(0 := 0x82, 1 := 0, 2 := 42)))) PC = byte_val 0
   \<and> branchTable (byte_val (ram (interrupt_check (new_cpu ((\<lambda>a. 0)(0 := 0x82, 1 := 0, 2 := 42)))) 0))
       = Some LDI
   \<and> (\<exists>t. tick (new_cpu ((\<lambda>a. 0)(0 := 0x82, 1 := 0, 2 := 42))) = Inr t
          \<and> reg t PC = Num 3 \<and> reg t (Idx (Num 0)) = Num 42)
   \<and> branchTable (byte_val (ram (interrupt_check (new_cpu ((\<lambda>a. 0)(0 := 0x54, 1 := 7)))) 0))
       = Some JMP
   \<and> (\<exists>t. tick (new_cpu ((\<lambda>a. 0)(0 := 0x54, 1 := 7))) = Inr t \<and> reg t PC = Num 0xF4)"
proof -
  let ?s = "new_cpu ((\<lambda>a. 0)(0 := 0x82, 1 := 0, 2 := 42))"
  let ?u = "new_cpu ((\<lambda>a. 0)(0 := 0x54, 1 := 7))"
  have h1: "reg (interrupt_check ?s) PC = byte_val 0"
    by (simp add: new_cpu_idle new_cpu_regs)
  have h2: "branchTable (byte_val (ram (interrupt_check ?s) 0)) = Some LDI"
    by (simp add: new_cpu_idle new_cpu_regs branchTable_def bt_entries_def opcode_defs byte_val_def)
  have h3: "reg (interrupt_check ?u) PC = byte_val 0"
    by (simp add: new_cpu_idle new_cpu_regs)
  have h4: "branchTable (byte_val (ram (interrupt_check ?u) 0)) = Some JMP"
    by (simp add: new_cpu_idle new_cpu_regs branchTable_def bt_entries_def opcode_defs byte_val_def)
  have a: "\<exists>t. tick ?s = Inr t \<and> reg t PC = Num 3 \<and> reg t (Idx (Num 0)) = Num 42"
    using tick_PC_advance [OF h1 h2]
    by (simp add: new_cpu_idle new_cpu_regs LDI_def Let_def byte_val_def)
  have b: "\<exists>t. tick ?u = Inr t \<and> reg t PC = Num 0xF4"
    using tick_PC_advance [OF h3 h4]
    by (simp add: new_cpu_idle new_cpu_regs JMP_def Let_def byte_val_def)
  from h1 h2 h4 a b show ?thesis by blast
qed

subsection \<open>Unknown opcodes\<close>

text \<open>
  Claim C10. Take any tick whose fetched byte (at the byte address \<open>p\<close> that PC holds after
  the interrupt check) has no entry in the branch table. The tick logs the invalid
  instruction, stops the engine and returns: its result is the state after the interrupt
  check with IR set to the fetched byte, the clock stopped and the message appended, and
  nothing else changed, so no handler ran, PC was not advanced and no register but IR was
  written (reads of memory have no effect on the state). When interrupts are disabled or no
  unmasked interrupt is pending, the interrupt check changes nothing either.
\<close>

theorem invalid_opcode_halts:
  assumes "reg (interrupt_check s) PC = byte_val p"
    and "branchTable (byte_val (ram (interrupt_check s) p)) = None"
  shows "tick s = Inr ((interrupt_check s)
           \<lparr>reg := (reg (interrupt_check s))(IR := byte_val (ram (interrupt_check s) p)),
            stopped := True,
            console := console (interrupt_check s)
                       @ [ConsoleLogInvalid (byte_val (ram (interrupt_check s) p))]\<rparr>)
       \<and> (\<not> interruptsEnabled s \<or> js_and (reg s (Idx IS)) (reg s (Idx IM)) = Num 0
            \<longrightarrow> interrupt_check s = s)"
  using assms
  by (simp add: tick_def fetch_execute_def Let_def stop_def console_log_def interrupt_check_idle)

text \<open>The theorem on a fresh machine whose memory holds 0xFF everywhere.\<close>

theorem invalid_opcode_halts_witness:
  "reg (interrupt_check (new_cpu (\<lambda>a. 0xFF))) PC = byte_val 0
   \<and> branchTable (byte_val (ram (interrupt_check (new_cpu (\<lambda>a. 0xFF))) 0)) = None
   \<and> tick (new_cpu (\<lambda>a. 0xFF)) =
       Inr ((new_cpu (\<lambda>a. 0xFF))
              \<lparr>reg := (reg (new_cpu (\<lambda>a. 0xFF)))(IR := Num 0xFF),
               stopped := True,
               console := [ConsoleLogInvalid (Num 0xFF)]\<rparr>)"
proof -
  let ?s = "new_cpu (\<lambda>a. 0xFF)"
  have h1: "reg (interrupt_check ?s) PC = byte_val 0"
    by (simp add: new_cpu_idle new_cpu_regs)
  have h2: "branchTable (byte_val (ram (interrupt_check ?s) 0)) = None"
    by (simp add: new_cpu_idle new_cpu_regs branchTable_def bt_entries_def opcode_defs byte_val_def)
  have "console ?s = []"
    by (simp add: new_cpu_def)
  with invalid_opcode_halts [OF h1 h2, THEN conjunct1] h1 h2 show ?thesis
    by (simp add: new_cpu_idle new_cpu_regs byte_val_def)
qed

section \<open>Interrupts\<close>

subsection \<open>Entry and return on byte-valued states\<close>

lemma is_byte_byte_val [simp]: "is_byte (byte_val w)"
  by (simp add: is_byte_def)

lemma is_byte_eq: "is_byte v \<longleftrightarrow> v = byte_val (to_uint8 v)"
proof
  assume "is_byte v"
  then obtain q where q: "v = Num q" "of_int \<lfloor>q\<rfloor> = q" "0 \<le> q" "q \<le> 255"
    by (auto simp: is_byte_def addr_def split: jsval.splits if_splits)
  define n where "n = \<lfloor>q\<rfloor>"
  have n: "q = of_int n"
    unfolding n_def using q(2) by (rule sym)
  have "0 \<le> n" "n < 256"
    using q(3,4) unfolding n by simp_all
  then have "Num (of_int n) = byte_val (word_of_int n)"
    by (rule Num_int_byte)
  then have "v = byte_val (word_of_int n)"
    using q(1) n by simp
  then show "v = byte_val (to_uint8 v)"
    by (metis to_uint8_byte)
next
  assume "v = byte_val (to_uint8 v)"
  then show "is_byte v"
    by (metis is_byte_byte_val)
qed

lemma byte_val_to_uint8 [simp]: "is_byte v \<Longrightarrow> byte_val (to_uint8 v) = v"
  using is_byte_eq [of v] by simp

lemma push_is_byte:
  assumes "is_byte (reg s (Idx SP))"
  shows "push v s = s\<lparr>reg := (reg s)(Idx SP := byte_val (to_uint8 (reg s (Idx SP)) - 1)),
                       ram := (ram s)(to_uint8 (reg s (Idx SP)) - 1 := to_uint8 v)\<rparr>"
  using assms push_byte [of s "to_uint8 (reg s (Idx SP))" v] by simp

lemma pop_is_byte:
  assumes "is_byte (reg s (Idx SP))"
  shows "pop s = (byte_val (ram s (to_uint8 (reg s (Idx SP)))),
                  s\<lparr>reg := (reg s)(Idx SP := byte_val (to_uint8 (reg s (Idx SP)) + 1))\<rparr>)"
  using assms pop_byte [of s "to_uint8 (reg s (Idx SP))"] by simp

lemma upt_0_7: "[0..<7] = [0, 1, 2, 3, 4, 5, 6]"
  by (simp add: upt_rec)

lemma intMask_at_byte:
  assumes "i < 8"
  shows "intMask_at i = byte_val (2 ^ i)"
proof -
  from assms have "i \<in> {0, 1, 2, 3, 4, 5, 6, 7}" by auto
  then show ?thesis
    by (auto simp: intMask_at_def intMask_def js_shl_def byte_val_def)
qed

lemma clear_line:
  assumes "i < 8"
  shows "js_and (byte_val w) (js_not (intMask_at i)) = byte_val (unset_bit i w)"
proof -
  have "and w (not (2 ^ i)) = unset_bit i w"
    by (simp add: unset_bit_eq_and_not push_bit_eq_mult)
  then show ?thesis
    using assms by (simp add: intMask_at_byte js_and_not_byte)
qed

lemma vector_address:
  assumes "i < 8"
  shows "Num (248 + of_nat i) = byte_val (0xF8 + of_nat i)"
proof -
  have "Num (248 + of_nat i) = Num (of_int (248 + int i))"
    by simp
  also have "\<dots> = byte_val (word_of_int (248 + int i))"
    using assms by (intro Num_int_byte) simp_all
  finally show ?thesis by simp
qed

lemma save_context:
  assumes "is_byte (reg s (Idx SP))"
  shows "foldl (\<lambda>t r. push (reg t (Idx (Num (of_nat r)))) t) (push fl (push pc s)) [0..<7] =
         s\<lparr>reg := (reg s)(Idx SP := byte_val (to_uint8 (reg s (Idx SP)) - 9)),
           ram := (ram s)
             (to_uint8 (reg s (Idx SP)) - 1 := to_uint8 pc,
              to_uint8 (reg s (Idx SP)) - 2 := to_uint8 fl,
              to_uint8 (reg s (Idx SP)) - 3 := to_uint8 (reg s (Idx (Num 0))),
              to_uint8 (reg s (Idx SP)) - 4 := to_uint8 (reg s (Idx (Num 1))),
              to_uint8 (reg s (Idx SP)) - 5 := to_uint8 (reg s (Idx (Num 2))),
              to_uint8 (reg s (Idx SP)) - 6 := to_uint8 (reg s (Idx (Num 3))),
              to_uint8 (reg s (Idx SP)) - 7 := to_uint8 (reg s (Idx (Num 4))),
              to_uint8 (reg s (Idx SP)) - 8 := to_uint8 (reg s (Idx (Num 5))),
              to_uint8 (reg s (Idx SP)) - 9 := to_uint8 (reg s (Idx (Num 6))))\<rparr>"
  using assms
  by (simp add: upt_0_7 push_is_byte SP_def fun_upd_same fun_upd_other del: fun_upd_apply)

lemma service_interrupt_byte:
  assumes "reg s (Idx IS) = byte_val isr" and "reg s (Idx SP) = byte_val sp" and "i < 8"
  shows "service_interrupt i s =
    (let m = (ram s)
           (sp - 1 := to_uint8 (reg s PC), sp - 2 := to_uint8 (reg s FL),
            sp - 3 := to_uint8 (reg s (Idx (Num 0))), sp - 4 := to_uint8 (reg s (Idx (Num 1))),
            sp - 5 := to_uint8 (reg s (Idx (Num 2))), sp - 6 := to_uint8 (reg s (Idx (Num 3))),
            sp - 7 := to_uint8 (reg s (Idx (Num 4))), sp - 8 := to_uint8 (reg s (Idx (Num 5))),
            sp - 9 := unset_bit i isr)
     in s\<lparr>interruptsEnabled := False,
           reg := (reg s)(Idx IS := byte_val (unset_bit i isr), Idx SP := byte_val (sp - 9),
                          PC := byte_val (m (0xF8 + of_nat i))),
           ram := m\<rparr>)"
  unfolding service_interrupt_def Let_def
  using assms
  by (simp add: clear_line save_context vector_address push_other IS_def SP_def fun_upd_same
      fun_upd_other del: fun_upd_apply)


lemma line_test:
  assumes "i < 8"
  shows "js_seq (js_and (js_sar (byte_val m) (Num (of_nat i))) (Num 1)) (Num 1) \<longleftrightarrow> bit m i"
proof -
  have t: "take_bit 32 (int i) = int i"
    using assms by (simp add: take_bit_int_eq_self)
  have "uint (drop_bit i m) = drop_bit i (uint m)"
    by (rule bit_eqI) (auto simp: bit_simps dest: bit_imp_le_length)
  then have "js_sar (byte_val m) (Num (of_nat i)) = Num (of_int (uint (drop_bit i m)))"
    using assms t by (simp add: js_sar_def trunc_def)
  then have "js_sar (byte_val m) (Num (of_nat i)) = byte_val (drop_bit i m)"
    by (simp only: byte_val_uint)
  then have "js_seq (js_and (js_sar (byte_val m) (Num (of_nat i))) (Num 1)) (Num 1)
      \<longleftrightarrow> and (drop_bit i m) 1 = 1"
    by (simp add: byte_val_numeral [symmetric] js_and_byte js_seq_byte)
  also have "\<dots> \<longleftrightarrow> bit m i"
    by (simp add: and_one_eq bit_iff_odd_drop_bit odd_iff_mod_2_eq_one)
  finally show ?thesis .
qed

lemma scan_lowest:
  assumes "\<forall>j\<in>set xs. j < 8 \<and> \<not> bit m j" and "i < 8" and "bit m i"
  shows "scan_interrupts (byte_val m) (xs @ i # ys) s = service_interrupt i s"
  using assms by (induction xs) (simp_all add: line_test)

lemma interrupt_check_entry:
  assumes "interruptsEnabled s"
    and "reg s (Idx IS) = byte_val isr" and "reg s (Idx IM) = byte_val imr"
    and "i < 8" and "bit (and isr imr) i" and "\<forall>j<i. \<not> bit (and isr imr) j"
  shows "interrupt_check s = service_interrupt i s"
proof -
  have "[0..<8] = [0..<i] @ i # [Suc i..<8]"
    using assms(4) by (metis less_imp_le_nat upt_add_eq_append upt_conv_Cons
        ordered_cancel_comm_monoid_diff_class.add_diff_inverse add_0 zero_le)
  moreover have "\<forall>j\<in>set [0..<i]. j < 8 \<and> \<not> bit (and isr imr) j"
    using assms(4,6) by auto
  ultimately show ?thesis
    using assms(1-5) by (simp add: interrupt_check_def js_and_byte scan_lowest)
qed



lemma IRET_byte:
  assumes "reg t (Idx SP) = byte_val sp"
  shows "IRET a b t =
     t\<lparr>reg := (reg t)
          (Idx (Num 6) := byte_val (ram t sp), Idx (Num 5) := byte_val (ram t (sp + 1)),
           Idx (Num 4) := byte_val (ram t (sp + 2)), Idx (Num 3) := byte_val (ram t (sp + 3)),
           Idx (Num 2) := byte_val (ram t (sp + 4)), Idx (Num 1) := byte_val (ram t (sp + 5)),
           Idx (Num 0) := byte_val (ram t (sp + 6)), FL := byte_val (ram t (sp + 7)),
           Idx SP := byte_val (sp + 9), PC := byte_val (ram t (sp + 8))),
       interruptsEnabled := True\<rparr>"
  using assms
  by (simp add: IRET_def upt_0_7 pop_is_byte Let_def split_def fun_upd_same fun_upd_other
      SP_def add.commute del: fun_upd_apply)


lemma IRET_after_service:
  assumes "interruptsEnabled s"
    and "reg s (Idx IS) = byte_val isr" and "reg s (Idx SP) = byte_val sp" and "i < 8"
    and "is_byte (reg s PC)" and "is_byte (reg s FL)"
    and "\<forall>n\<in>set [0..<6]. is_byte (reg s (Idx (Num (of_nat n))))"
  shows "IRET a b (service_interrupt i s) =
         s\<lparr>reg := (reg s)(Idx IS := byte_val (unset_bit i isr)),
           ram := ram (service_interrupt i s)\<rparr>"
proof -
  let ?m = "(ram s)
           (sp - 1 := to_uint8 (reg s PC), sp - 2 := to_uint8 (reg s FL),
            sp - 3 := to_uint8 (reg s (Idx (Num 0))), sp - 4 := to_uint8 (reg s (Idx (Num 1))),
            sp - 5 := to_uint8 (reg s (Idx (Num 2))), sp - 6 := to_uint8 (reg s (Idx (Num 3))),
            sp - 7 := to_uint8 (reg s (Idx (Num 4))), sp - 8 := to_uint8 (reg s (Idx (Num 5))),
            sp - 9 := unset_bit i isr)"
  let ?t = "s\<lparr>interruptsEnabled := False,
           reg := (reg s)(Idx IS := byte_val (unset_bit i isr), Idx SP := byte_val (sp - 9),
                          PC := byte_val (?m (0xF8 + of_nat i))),
           ram := ?m\<rparr>"
  have t: "service_interrupt i s = ?t"
    using service_interrupt_byte [OF assms(2,3,4)] by (simp add: Let_def)
  have sp: "reg ?t (Idx SP) = byte_val (sp - 9)"
    by (simp add: SP_def)
  have cells: "?m (sp - 9) = unset_bit i isr" "?m (sp - 9 + 1) = to_uint8 (reg s (Idx (Num 5)))"
    "?m (sp - 9 + 2) = to_uint8 (reg s (Idx (Num 4)))"
    "?m (sp - 9 + 3) = to_uint8 (reg s (Idx (Num 3)))"
    "?m (sp - 9 + 4) = to_uint8 (reg s (Idx (Num 2)))"
    "?m (sp - 9 + 5) = to_uint8 (reg s (Idx (Num 1)))"
    "?m (sp - 9 + 6) = to_uint8 (reg s (Idx (Num 0)))"
    "?m (sp - 9 + 7) = to_uint8 (reg s FL)"
    "?m (sp - 9 + 8) = to_uint8 (reg s PC)"
    by simp_all
  have regs: "is_byte (reg s (Idx (Num 0)))" "is_byte (reg s (Idx (Num 1)))"
    "is_byte (reg s (Idx (Num 2)))" "is_byte (reg s (Idx (Num 3)))"
    "is_byte (reg s (Idx (Num 4)))" "is_byte (reg s (Idx (Num 5)))"
    using assms(7) by (simp_all add: upt_rec)
  have "IRET a b ?t = s\<lparr>reg := (reg s)(Idx IS := byte_val (unset_bit i isr)), ram := ?m\<rparr>"
    unfolding IRET_byte [OF sp]
    using assms(1,3,5,6) regs
    by (intro cpu.equality) (simp_all add: cells fun_eq_iff IS_def SP_def del: fun_upd_apply, simp)
  then show ?thesis
    by (simp add: t)
qed

lemma lowest_line:
  assumes "(w::8 word) \<noteq> 0" and "i = (LEAST k. bit w k)"
  shows "i < 8" and "bit w i" and "\<forall>j<i. \<not> bit w j"
proof -
  from assms(1) obtain k where "bit w k"
    by (auto simp: bit_eq_iff)
  then show "bit w i"
    unfolding assms(2) by (rule LeastI)
  then show "i < 8"
    using bit_imp_le_length [of w i] by simp
  show "\<forall>j<i. \<not> bit w j"
    unfolding assms(2) using not_less_Least by blast
qed

subsection \<open>The scenario: line 0 pending and unmasked, vector 0x50\<close>

text \<open>
  The reset state after LDI R0,42 and LDI R5,1 (IM bit 0) with interrupt 0 raised (IS bit 0),
  over any memory \<open>m\<close>.
\<close>

lemma least_bit_1: "(LEAST k. bit (1::8 word) k) = 0"
  by (rule Least_eq_0) simp

lemma to_uint8_numeral [simp]:
  "to_uint8 (Num (numeral n)) = numeral n" "to_uint8 (Num 0) = 0" "to_uint8 (Num 1) = 1"
  using to_uint8_int [of "numeral n"] to_uint8_int [of 0] to_uint8_int [of 1] by simp_all

lemma unset_bit_0_1 [simp]: "unset_bit 0 (1::8 word) = 0"
  by (simp add: unset_bit_eq_and_not)

lemma scenario_regs:
  "interruptsEnabled (raiseInterrupt 0 (LDI (Num 5) (Num 1) (LDI (Num 0) (Num 42) (new_cpu m))))"
  "reg (raiseInterrupt 0 (LDI (Num 5) (Num 1) (LDI (Num 0) (Num 42) (new_cpu m)))) (Idx IS) = byte_val 1"
  "reg (raiseInterrupt 0 (LDI (Num 5) (Num 1) (LDI (Num 0) (Num 42) (new_cpu m)))) (Idx IM) = byte_val 1"
  "reg (raiseInterrupt 0 (LDI (Num 5) (Num 1) (LDI (Num 0) (Num 42) (new_cpu m)))) (Idx SP) = byte_val 0xF4"
  "reg (raiseInterrupt 0 (LDI (Num 5) (Num 1) (LDI (Num 0) (Num 42) (new_cpu m)))) PC = byte_val 0"
  "reg (raiseInterrupt 0 (LDI (Num 5) (Num 1) (LDI (Num 0) (Num 42) (new_cpu m)))) FL = byte_val 0"
  "reg (raiseInterrupt 0 (LDI (Num 5) (Num 1) (LDI (Num 0) (Num 42) (new_cpu m)))) (Idx (Num 0)) = byte_val 42"
  "reg (raiseInterrupt 0 (LDI (Num 5) (Num 1) (LDI (Num 0) (Num 42) (new_cpu m)))) (Idx (Num 1)) = byte_val 0"
  "reg (raiseInterrupt 0 (LDI (Num 5) (Num 1) (LDI (Num 0) (Num 42) (new_cpu m)))) (Idx (Num 2)) = byte_val 0"
  "reg (raiseInterrupt 0 (LDI (Num 5) (Num 1) (LDI (Num 0) (Num 42) (new_cpu m)))) (Idx (Num 3)) = byte_val 0"
  "reg (raiseInterrupt 0 (LDI (Num 5) (Num 1) (LDI (Num 0) (Num 42) (new_cpu m)))) (Idx (Num 4)) = byte_val 0"
  "reg (raiseInterrupt 0 (LDI (Num 5) (Num 1) (LDI (Num 0) (Num 42) (new_cpu m)))) (Idx (Num 5)) = byte_val 1"
  "ram (raiseInterrupt 0 (LDI (Num 5) (Num 1) (LDI (Num 0) (Num 42) (new_cpu m)))) = m"
  by (simp_all add: raiseInterrupt_def LDI_def new_cpu_def IS_def IM_def SP_def byte_val_def
      intMask_at_def intMask_def js_shl_def js_or_def)

lemma scenario_entry:
  "interrupt_check (raiseInterrupt 0 (LDI (Num 5) (Num 1) (LDI (Num 0) (Num 42) (new_cpu m)))) =
   service_interrupt 0 (raiseInterrupt 0 (LDI (Num 5) (Num 1) (LDI (Num 0) (Num 42) (new_cpu m))))"
  by (rule interrupt_check_entry [OF scenario_regs(1-3)]) simp_all

lemma scenario_bytes:
  "is_byte (reg (raiseInterrupt 0 (LDI (Num 5) (Num 1) (LDI (Num 0) (Num 42) (new_cpu m)))) PC)"
  "is_byte (reg (raiseInterrupt 0 (LDI (Num 5) (Num 1) (LDI (Num 0) (Num 42) (new_cpu m)))) FL)"
  "\<forall>n\<in>set [0..<6]. is_byte (reg (raiseInterrupt 0 (LDI (Num 5) (Num 1)
      (LDI (Num 0) (Num 42) (new_cpu m)))) (Idx (Num (of_nat n))))"
  by (simp_all add: scenario_regs upt_rec)

subsection \<open>Interrupt entry\<close>

text \<open>
  Claim C1, as the code has it. Take any state in which interrupts are enabled, IS, IM and SP
  hold bytes and \<open>IS & IM\<close> is not zero, and let \<open>i\<close> be the lowest line whose bit is
  set in \<open>IS & IM\<close>. The interrupt check at the start of the tick services exactly that
  line: it disables interrupt recognition, clears bit \<open>i\<close> of IS, pushes PC, then FL,
  then R0 to R6 in ascending order (R6 is IS, already with bit \<open>i\<close> cleared; each value
  is stored as the memory stores it, \<open>to_uint8\<close>, which is the value itself when it is a
  byte), so that SP ends 9 below, and sets PC to the byte that memory address
  \<open>0xF8 + i\<close> holds after the pushes. That is the state after the interrupt check, not
  after the tick: the same tick goes on to fetch and execute the instruction at the new PC.
\<close>

theorem tick_interrupt_entry:
  assumes "interruptsEnabled s"
    and "reg s (Idx IS) = byte_val isr" and "reg s (Idx IM) = byte_val imr"
    and "reg s (Idx SP) = byte_val sp"
    and "and isr imr \<noteq> 0" and "i = (LEAST k. bit (and isr imr) k)"
  shows "i < 8 \<and> bit (and isr imr) i
    \<and> interrupt_check s =
      (let m = (ram s)
           (sp - 1 := to_uint8 (reg s PC), sp - 2 := to_uint8 (reg s FL),
            sp - 3 := to_uint8 (reg s (Idx (Num 0))), sp - 4 := to_uint8 (reg s (Idx (Num 1))),
            sp - 5 := to_uint8 (reg s (Idx (Num 2))), sp - 6 := to_uint8 (reg s (Idx (Num 3))),
            sp - 7 := to_uint8 (reg s (Idx (Num 4))), sp - 8 := to_uint8 (reg s (Idx (Num 5))),
            sp - 9 := unset_bit i isr)
       in s\<lparr>interruptsEnabled := False,
             reg := (reg s)(Idx IS := byte_val (unset_bit i isr), Idx SP := byte_val (sp - 9),
                            PC := byte_val (m (0xF8 + of_nat i))),
             ram := m\<rparr>)
    \<and> tick s = fetch_execute (interrupt_check s)"
proof -
  note low = lowest_line [OF assms(5,6)]
  have "interrupt_check s = service_interrupt i s"
    using assms(1-3) low by (rule interrupt_check_entry)
  with low(1,2) show ?thesis
    by (simp only: service_interrupt_byte [OF assms(2,4) low(1)] tick_def)
qed

text \<open>
  The theorem in the scenario with vector 0x50: after the interrupt check PC is 0x50, IS is
  0, interrupts are disabled, SP is 0xEB, and the stack holds from the top (0xEB) upwards
  R6 = 0, R5 = 1, R4 to R1 = 0, R0 = 42, FL = 0 and the old PC = 0.
\<close>

theorem tick_interrupt_entry_witness:
  "interruptsEnabled (raiseInterrupt 0 (LDI (Num 5) (Num 1) (LDI (Num 0) (Num 42)
      (new_cpu ((\<lambda>a. 0)(0xF8 := 0x50))))))
   \<and> reg (raiseInterrupt 0 (LDI (Num 5) (Num 1) (LDI (Num 0) (Num 42)
      (new_cpu ((\<lambda>a. 0)(0xF8 := 0x50)))))) (Idx IS) = byte_val 1
   \<and> reg (raiseInterrupt 0 (LDI (Num 5) (Num 1) (LDI (Num 0) (Num 42)
      (new_cpu ((\<lambda>a. 0)(0xF8 := 0x50)))))) (Idx IM) = byte_val 1
   \<and> reg (raiseInterrupt 0 (LDI (Num 5) (Num 1) (LDI (Num 0) (Num 42)
      (new_cpu ((\<lambda>a. 0)(0xF8 := 0x50)))))) (Idx SP) = byte_val 0xF4
   \<and> and (1::8 word) 1 \<noteq> 0
   \<and> (0::nat) = (LEAST k. bit (and (1::8 word) 1) k)
   \<and> interrupt_check (raiseInterrupt 0 (LDI (Num 5) (Num 1) (LDI (Num 0) (Num 42)
      (new_cpu ((\<lambda>a. 0)(0xF8 := 0x50)))))) =
     (raiseInterrupt 0 (LDI (Num 5) (Num 1) (LDI (Num 0) (Num 42)
        (new_cpu ((\<lambda>a. 0)(0xF8 := 0x50))))))
     \<lparr>interruptsEnabled := False,
      reg := (reg (raiseInterrupt 0 (LDI (Num 5) (Num 1) (LDI (Num 0) (Num 42)
                (new_cpu ((\<lambda>a. 0)(0xF8 := 0x50)))))))
             (Idx IS := Num 0, Idx SP := Num 0xEB, PC := Num 0x50),
      ram := (\<lambda>a. 0)(0xF8 := 0x50, 0xF3 := 0, 0xF2 := 0, 0xF1 := 42, 0xF0 := 0, 0xEF := 0,
               0xEE := 0, 0xED := 0, 0xEC := 1, 0xEB := 0)\<rparr>"
proof -
  let ?s = "raiseInterrupt 0 (LDI (Num 5) (Num 1) (LDI (Num 0) (Num 42)
      (new_cpu ((\<lambda>a. 0)(0xF8 := 0x50)))))"
  have h5: "and (1::8 word) 1 \<noteq> 0" by simp
  have h6: "(0::nat) = (LEAST k. bit (and (1::8 word) 1) k)"
    by (simp add: least_bit_1)
  note T = tick_interrupt_entry [OF scenario_regs(1-4) h5 h6]
  have "interrupt_check ?s =
     ?s\<lparr>interruptsEnabled := False,
        reg := (reg ?s)(Idx IS := Num 0, Idx SP := Num 0xEB, PC := Num 0x50),
        ram := (\<lambda>a. 0)(0xF8 := 0x50, 0xF3 := 0, 0xF2 := 0, 0xF1 := 42, 0xF0 := 0, 0xEF := 0,
               0xEE := 0, 0xED := 0, 0xEC := 1, 0xEB := 0)\<rparr>"
    using T [THEN conjunct2, THEN conjunct2, THEN conjunct1]
    by (simp add: scenario_regs Let_def byte_val_def)
  with scenario_regs(1-4) h5 h6 show ?thesis
    by blast
qed

text \<open>
  Claim C1 as stated fails: it gives PC = 0x50 after one tick. In the scenario the memory
  holds 0 (NOP) at 0x50, the tick executes it after the interrupt entry, and PC is 0x51 when
  the tick returns.
\<close>

theorem tick_runs_first_handler_instruction_counterexample:
  "\<not> isl (tick (raiseInterrupt 0 (LDI (Num 5) (Num 1) (LDI (Num 0) (Num 42)
      (new_cpu ((\<lambda>a. 0)(0xF8 := 0x50)))))))
   \<and> reg (projr (tick (raiseInterrupt 0 (LDI (Num 5) (Num 1) (LDI (Num 0) (Num 42)
      (new_cpu ((\<lambda>a. 0)(0xF8 := 0x50)))))))) PC = Num 0x51"
proof -
  let ?s = "raiseInterrupt 0 (LDI (Num 5) (Num 1) (LDI (Num 0) (Num 42)
      (new_cpu ((\<lambda>a. 0)(0xF8 := 0x50)))))"
  let ?t = "interrupt_check ?s"
  have t: "?t = service_interrupt 0 ?s"
    by (rule scenario_entry)
  note sv = service_interrupt_byte [OF scenario_regs(2,4), of 0 "(\<lambda>a. 0)(0xF8 := 0x50)"]
  have pc: "reg ?t PC = byte_val 0x50"
    unfolding t by (simp add: sv scenario_regs Let_def)
  have op: "ram ?t 0x50 = 0"
    unfolding t by (simp add: sv scenario_regs Let_def)
  have bt: "branchTable (byte_val (ram ?t 0x50)) = Some NOP"
    unfolding op by (simp add: branchTable_def bt_entries_def opcode_defs byte_val_def)
  have "tick ?s = fetch_execute ?t"
    by (simp add: tick_def)
  then show ?thesis
    using fetch_execute_handler [OF pc bt]
    by (simp add: op NOP_def Let_def byte_val_def)
qed

subsection \<open>IRET\<close>

text \<open>
  Claim C5, as the code has it. Take any state in which interrupts are enabled, \<open>IS & IM\<close>
  is not zero with lowest set bit \<open>i\<close>, and PC, FL and R0 to R7 hold bytes. Interrupt
  entry followed at once by the handler IRET gives back the starting state: PC, FL, R0 to
  R5, SP and the enabled flag are as before the interrupt. The two exceptions are IS (R6),
  which comes back with the serviced bit \<open>i\<close> cleared, as entry saved it, and the nine
  stack cells that entry wrote. And in any state whose SP is a byte, IRET pops in the
  reverse of the entry order: the top cell into R6, the next ones into R5 down to R0, then
  FL, then PC, with SP 9 higher (modulo 256) and interrupts enabled at the end.
\<close>

theorem IRET_restores_context:
  assumes "interruptsEnabled s"
    and "reg s (Idx IS) = byte_val isr" and "reg s (Idx IM) = byte_val imr"
    and "reg s (Idx SP) = byte_val sp"
    and "and isr imr \<noteq> 0" and "i = (LEAST k. bit (and isr imr) k)"
    and "is_byte (reg s PC)" and "is_byte (reg s FL)"
    and "\<forall>n\<in>set [0..<6]. is_byte (reg s (Idx (Num (of_nat n))))"
  shows "IRET a b (interrupt_check s) =
           s\<lparr>reg := (reg s)(Idx IS := byte_val (unset_bit i isr)),
             ram := ram (interrupt_check s)\<rparr>
    \<and> (\<forall>t top. reg t (Idx SP) = byte_val top \<longrightarrow>
          IRET a b t =
            t\<lparr>reg := (reg t)
                 (Idx (Num 6) := byte_val (ram t top),
                  Idx (Num 5) := byte_val (ram t (top + 1)),
                  Idx (Num 4) := byte_val (ram t (top + 2)),
                  Idx (Num 3) := byte_val (ram t (top + 3)),
                  Idx (Num 2) := byte_val (ram t (top + 4)),
                  Idx (Num 1) := byte_val (ram t (top + 5)),
                  Idx (Num 0) := byte_val (ram t (top + 6)),
                  FL := byte_val (ram t (top + 7)),
                  Idx SP := byte_val (top + 9),
                  PC := byte_val (ram t (top + 8))),
              interruptsEnabled := True\<rparr>)"
proof -
  note low = lowest_line [OF assms(5,6)]
  have "interrupt_check s = service_interrupt i s"
    using assms(1-3) low by (rule interrupt_check_entry)
  then have "IRET a b (interrupt_check s) =
           s\<lparr>reg := (reg s)(Idx IS := byte_val (unset_bit i isr)),
             ram := ram (interrupt_check s)\<rparr>"
    using IRET_after_service [OF assms(1,2,4) low(1) assms(7,8,9)] by simp
  then show ?thesis
    using IRET_byte by blast
qed

text \<open>The theorem in the scenario: everything is restored, with IS = 0.\<close>

theorem IRET_restores_context_witness:
  "interruptsEnabled (raiseInterrupt 0 (LDI (Num 5) (Num 1) (LDI (Num 0) (Num 42)
      (new_cpu ((\<lambda>a. 0)(0xF8 := 0x50))))))
   \<and> and (1::8 word) 1 \<noteq> 0
   \<and> (0::nat) = (LEAST k. bit (and (1::8 word) 1) k)
   \<and> IRET (Num 0) (Num 0) (interrupt_check (raiseInterrupt 0 (LDI (Num 5) (Num 1)
        (LDI (Num 0) (Num 42) (new_cpu ((\<lambda>a. 0)(0xF8 := 0x50))))))) =
     (raiseInterrupt 0 (LDI (Num 5) (Num 1) (LDI (Num 0) (Num 42)
        (new_cpu ((\<lambda>a. 0)(0xF8 := 0x50))))))
     \<lparr>reg := (reg (raiseInterrupt 0 (LDI (Num 5) (Num 1) (LDI (Num 0) (Num 42)
                (new_cpu ((\<lambda>a. 0)(0xF8 := 0x50)))))))(Idx IS := Num 0),
      ram := (\<lambda>a. 0)(0xF8 := 0x50, 0xF3 := 0, 0xF2 := 0, 0xF1 := 42, 0xF0 := 0, 0xEF := 0,
               0xEE := 0, 0xED := 0, 0xEC := 1, 0xEB := 0)\<rparr>"
proof -
  let ?s = "raiseInterrupt 0 (LDI (Num 5) (Num 1) (LDI (Num 0) (Num 42)
      (new_cpu ((\<lambda>a. 0)(0xF8 := 0x50)))))"
  have h5: "and (1::8 word) 1 \<noteq> 0" by simp
  have h6: "(0::nat) = (LEAST k. bit (and (1::8 word) 1) k)"
    by (simp add: least_bit_1)
  note sv = service_interrupt_byte [OF scenario_regs(2,4), of 0 "(\<lambda>a. 0)(0xF8 := 0x50)"]
  have m: "ram (interrupt_check ?s) =
     (\<lambda>a. 0)(0xF8 := 0x50, 0xF3 := 0, 0xF2 := 0, 0xF1 := 42, 0xF0 := 0, 0xEF := 0,
               0xEE := 0, 0xED := 0, 0xEC := 1, 0xEB := 0)"
    unfolding scenario_entry by (simp add: sv scenario_regs Let_def)
  note T = IRET_restores_context [OF scenario_regs(1-4) h5 h6 scenario_bytes,
      of "Num 0" "Num 0"]
  have "IRET (Num 0) (Num 0) (interrupt_check ?s) =
     ?s\<lparr>reg := (reg ?s)(Idx IS := Num 0),
        ram := (\<lambda>a. 0)(0xF8 := 0x50, 0xF3 := 0, 0xF2 := 0, 0xF1 := 42, 0xF0 := 0, 0xEF := 0,
               0xEE := 0, 0xED := 0, 0xEC := 1, 0xEB := 0)\<rparr>"
    unfolding T [THEN conjunct1] m by (simp add: byte_val_def)
  with scenario_regs(1) h5 h6 show ?thesis
    by blast
qed

text \<open>
  Claim C5 as stated fails for R6: in the scenario R6 (IS) is 1 before the interrupt and 0
  after entry and IRET.
\<close>

theorem IRET_does_not_restore_IS_counterexample:
  "reg (raiseInterrupt 0 (LDI (Num 5) (Num 1) (LDI (Num 0) (Num 42)
      (new_cpu ((\<lambda>a. 0)(0xF8 := 0x50)))))) (Idx (Num 6)) = Num 1
   \<and> reg (IRET (Num 0) (Num 0) (interrupt_check (raiseInterrupt 0 (LDI (Num 5) (Num 1)
        (LDI (Num 0) (Num 42) (new_cpu ((\<lambda>a. 0)(0xF8 := 0x50)))))))) (Idx (Num 6)) = Num 0"
proof -
  let ?s = "raiseInterrupt 0 (LDI (Num 5) (Num 1) (LDI (Num 0) (Num 42)
      (new_cpu ((\<lambda>a. 0)(0xF8 := 0x50)))))"
  have before: "reg ?s (Idx (Num 6)) = Num 1"
    using scenario_regs(2) [of "(\<lambda>a. 0)(0xF8 := 0x50)"] by (simp add: IS_def byte_val_def)
  have "IRET (Num 0) (Num 0) (service_interrupt 0 ?s) =
        ?s\<lparr>reg := (reg ?s)(Idx IS := byte_val (unset_bit 0 1)),
           ram := ram (service_interrupt 0 ?s)\<rparr>"
    by (rule IRET_after_service [OF scenario_regs(1,2,4) _ scenario_bytes]) simp
  then have "reg (IRET (Num 0) (Num 0) (interrupt_check ?s)) (Idx (Num 6)) = Num 0"
    unfolding scenario_entry by (simp add: IS_def byte_val_def)
  with before show ?thesis by blast
qed

end
